theory Spec2Isabelle
  imports Complex_Main "HOL-Library.Log_Nat"
begin

section \<open>Shared values\<close>

text \<open>Exceptions that the two nodes can raise are values of \<open>py_error\<close>.\<close>

datatype py_error = IndexError | ValueError | AttributeError | UnboundLocalError

text \<open>A float64 value: a finite value, given by the rational it stands for, an infinity or \<open>nan\<close>.\<close>

datatype npfloat = Num rat | PInf | NInf | NaN

text \<open>Rounding a rational to the nearest integer, a tie to the even one.\<close>

definition round_half_even :: "rat \<Rightarrow> int" where
  "round_half_even y =
     (let f = \<lfloor>y\<rfloor>; d = y - of_int f
      in if d < 1 / 2 then f else if 1 / 2 < d then f + 1 else if even f then f else f + 1)"

text \<open>
  The binary exponent of a positive rational \<open>x\<close>, the \<open>e\<close> with \<open>2^e \<le> x < 2^(e+1)\<close>,
  found from the bit lengths of its numerator and denominator.
\<close>

definition fexp :: "rat \<Rightarrow> int" where
  "fexp x =
     (case quotient_of x of
        (p, q) \<Rightarrow> (let d = bitlen p - bitlen q in if 2 powi d \<le> x then d else d - 1))"

text \<open>
  What float64 arithmetic returns for the exact result \<open>x\<close>: the nearest value with a
  53-bit significand, a tie to the even one. The unit in the last place is \<open>2^(e-52)\<close> for
  the exponent \<open>e\<close> of \<open>x\<close>, which is at least -1022 (below that the values are subnormal);
  a result of \<open>2^1024\<close> or more is an infinity.
\<close>

definition round64 :: "rat \<Rightarrow> npfloat" where
  "round64 x =
     (if x = 0 then Num 0
      else
        (let e = max (fexp \<bar>x\<bar>) (- 1022);
             u = 2 powi (e - 52);
             r = of_int (round_half_even (\<bar>x\<bar> / u)) * u
         in if e < 1023 then Num (if 0 < x then r else - r)
            else if 2 powi 1024 \<le> r then (if 0 < x then PInf else NInf)
            else Num (if 0 < x then r else - r)))"

text \<open>The product of two float64 values.\<close>

fun fsign :: "npfloat \<Rightarrow> int" where
  "fsign (Num q) = (if 0 < q then 1 else if q < 0 then - 1 else 0)"
| "fsign PInf = 1"
| "fsign NInf = - 1"
| "fsign NaN = 0"

definition fmul :: "npfloat \<Rightarrow> npfloat \<Rightarrow> npfloat" where
  "fmul x y =
     (if x = NaN \<or> y = NaN then NaN
      else
        (case (x, y) of
           (Num a, Num b) \<Rightarrow> round64 (a * b)
         | _ \<Rightarrow> (if fsign x * fsign y = 0 then NaN
                 else if 0 < fsign x * fsign y then PInf else NInf)))"

text \<open>Arithmetic on int64 values wraps around.\<close>

definition wrap64 :: "int \<Rightarrow> int" where
  "wrap64 k = (k + 2 ^ 63) mod 2 ^ 64 - 2 ^ 63"

text \<open>\<open>arr.reshape((4, 2))\<close> on a flat array: numpy raises ValueError unless it has 8 entries.\<close>

definition np_reshape42 :: "'a list \<Rightarrow> py_error + ('a \<times> 'a) list" where
  "np_reshape42 xs =
     (if length xs = 8
      then Inr [(xs ! 0, xs ! 1), (xs ! 2, xs ! 3), (xs ! 4, xs ! 5), (xs ! 6, xs ! 7)]
      else Inl ValueError)"

text \<open>\<open>arr.flatten()\<close> of an array of points, also \<open>[coord for point in arr for coord in point]\<close>.\<close>

definition flatten :: "('a \<times> 'a) list \<Rightarrow> 'a list" where
  "flatten pts = concat (map (\<lambda>(x, y). [x, y]) pts)"

section \<open>dai_detector.py: DepthaiCamera\<close>

subsection \<open>Data\<close>

text \<open>\<open>frame.shape\<close>: \<open>shape0\<close> is the number of rows (height), \<open>shape1\<close> the number of columns (width).\<close>

record frame =
  shape0 :: nat
  shape1 :: nat

text \<open>A detection of the network: the index of its class and its normalised bounding box.\<close>

record detection =
  label :: nat
  xmin :: npfloat
  ymin :: npfloat
  xmax :: npfloat
  ymax :: npfloat

text \<open>
  \<open>published_objects\<close> is the set of line 96, \<open>coordinate_buffers\<close> the
  \<open>defaultdict(lambda: deque(maxlen=10))\<close> of line 99; each buffered entry is a flattened
  array of eight pixel coordinates.
\<close>

record dai_state =
  published_objects :: "int set"
  coordinate_buffers :: "int \<rightharpoonup> int list list"

definition init_state :: dai_state where
  "init_state = \<lparr>published_objects = {}, coordinate_buffers = Map.empty\<rparr>"

text \<open>What one call does to the outside world, in order.\<close>

datatype dai_event =
    Logwarn string
  | Publish "npfloat list"
  | Loginfo_found string
  | Loginfo_published npfloat
  | Espeak string

subsection \<open>frameNorm (lines 277-280)\<close>

text \<open>\<open>np.clip(v, lo, hi)\<close> is \<open>minimum(maximum(v, lo), hi)\<close>; \<open>nan\<close> passes through it.\<close>

definition np_clip :: "npfloat \<Rightarrow> rat \<Rightarrow> rat \<Rightarrow> npfloat" where
  "np_clip v lo hi =
     (case v of
        Num q \<Rightarrow> Num (min (max q lo) hi)
      | PInf \<Rightarrow> Num hi
      | NInf \<Rightarrow> Num (min lo hi)
      | NaN \<Rightarrow> NaN)"

text \<open>A float64 times an entry of an int64 array: the integer is converted to float64 first.\<close>

definition np_multiply :: "npfloat \<Rightarrow> int \<Rightarrow> npfloat" where
  "np_multiply v n = fmul v (round64 (of_int n))"

text \<open>
  \<open>astype(int)\<close> truncates towards zero. For \<open>nan\<close>, an infinity or a value outside the
  int64 range the conversion instruction of the processor returns the least int64.
\<close>

definition int64_min :: int where
  "int64_min = - (2 ^ 63)"

definition astype_int :: "npfloat \<Rightarrow> int" where
  "astype_int v =
     (case v of
        Num q \<Rightarrow>
          (let t = (if 0 \<le> q then \<lfloor>q\<rfloor> else \<lceil>q\<rceil>)
           in if int64_min \<le> t \<and> t < 2 ^ 63 then t else int64_min)
      | _ \<Rightarrow> int64_min)"

text \<open>\<open>xs[::2] = v\<close>: every entry at an even index is overwritten.\<close>

definition assign_step2 :: "'a list \<Rightarrow> 'a \<Rightarrow> 'a list" where
  "assign_step2 xs v = map (\<lambda>i. if even i then v else xs ! i) [0..<length xs]"

definition frameNorm :: "frame \<Rightarrow> npfloat list \<Rightarrow> int list" where
  "frameNorm fr bbox =
     (let normVals = assign_step2 (replicate (length bbox) (int (shape0 fr))) (int (shape1 fr))
      in map2 (\<lambda>b n. astype_int (np_multiply (np_clip b 0 1) n)) bbox normVals)"

subsection \<open>publish_object_data (lines 103-148)\<close>

text \<open>\<open>labels[detection.label]\<close>, with \<open>labels\<close> the list of class names of the configuration file.\<close>

definition labels_lookup :: "string list \<Rightarrow> nat \<Rightarrow> py_error + string" where
  "labels_lookup labels l = (if l < length labels then Inr (labels ! l) else Inl IndexError)"

text \<open>Reading the \<open>defaultdict\<close>: a missing key stands for an empty deque.\<close>

definition buffer_of :: "dai_state \<Rightarrow> int \<Rightarrow> int list list" where
  "buffer_of s oid = (case coordinate_buffers s oid of None \<Rightarrow> [] | Some b \<Rightarrow> b)"

text \<open>\<open>deque(maxlen=10).append\<close>: a full deque drops its oldest entry.\<close>

definition maxlen :: nat where
  "maxlen = 10"

definition deque_append :: "'a list \<Rightarrow> 'a \<Rightarrow> 'a list" where
  "deque_append b x = drop (Suc (length b) - maxlen) (b @ [x])"

text \<open>
  \<open>np.mean(rows, axis=0)\<close>: the rows must have one length (numpy raises otherwise); each
  column is summed and divided by the number of rows. The quotient is given exactly; the
  float64 that numpy returns is the value nearest to it.
\<close>

definition np_mean_axis0 :: "int list list \<Rightarrow> py_error + rat list" where
  "np_mean_axis0 rows =
     (if list_all (\<lambda>r. length r = length (hd rows)) rows
      then Inr (map (\<lambda>col. of_int (sum_list col) / of_nat (length rows)) (transpose rows))
      else Inl ValueError)"

text \<open>
  \<open>a / b\<close> for a numpy integer \<open>a\<close>: a zero divisor gives \<open>nan\<close> or an infinity, not an
  exception. A finite quotient is given exactly; the float64 is the value nearest to it.
\<close>

definition np_true_divide :: "int \<Rightarrow> nat \<Rightarrow> npfloat" where
  "np_true_divide a b =
     (if b = 0 then (if a = 0 then NaN else if 0 < a then PInf else NInf)
      else Num (of_int a / of_nat b))"

text \<open>Lines 115-121: the four corners of the pixel box, in the order of the source.\<close>

definition corners_of :: "frame \<Rightarrow> detection \<Rightarrow> (int \<times> int) list" where
  "corners_of fr d =
     (let bbox = frameNorm fr [xmin d, ymin d, xmax d, ymax d]
      in [(bbox ! 0, bbox ! 1), (bbox ! 2, bbox ! 1), (bbox ! 2, bbox ! 3), (bbox ! 0, bbox ! 3)])"

text \<open>Lines 122-126; the differences are taken on int64 values.\<close>

definition marker_length_x :: "frame \<Rightarrow> detection \<Rightarrow> npfloat" where
  "marker_length_x fr d =
     (let bbox = frameNorm fr [xmin d, ymin d, xmax d, ymax d];
          width = wrap64 (bbox ! 2 - bbox ! 0)
      in np_true_divide width (shape1 fr))"

definition marker_length_y :: "frame \<Rightarrow> detection \<Rightarrow> npfloat" where
  "marker_length_y fr d =
     (let bbox = frameNorm fr [xmin d, ymin d, xmax d, ymax d];
          height = wrap64 (bbox ! 3 - bbox ! 1)
      in np_true_divide height (shape0 fr))"

text \<open>
  Lines 113-148, once \<open>object_id\<close> is known. The result is the new state, the events and the
  exception, if one is raised (after the buffer has been appended to).
\<close>

definition aggregate :: "dai_state \<Rightarrow> frame \<Rightarrow> detection \<Rightarrow> int \<Rightarrow> string \<Rightarrow>
    dai_state \<times> dai_event list \<times> py_error option" where
  "aggregate s fr d object_id name =
     (let buf = deque_append (buffer_of s object_id) (flatten (corners_of fr d));
          s1 = s\<lparr>coordinate_buffers := (coordinate_buffers s)(object_id \<mapsto> buf)\<rparr>
      in if length buf = 10 \<and> object_id \<notin> published_objects s1 then
           (case np_mean_axis0 buf of
              Inl e \<Rightarrow> (s1, [], Some e)
            | Inr avg \<Rightarrow>
               (case np_reshape42 avg of
                  Inl e \<Rightarrow> (s1, [], Some e)
                | Inr avg_corners \<Rightarrow>
                   (let data = [Num (of_int object_id)] @ map Num (flatten avg_corners)
                               @ [marker_length_x fr d, marker_length_y fr d]
                    in (s1\<lparr>published_objects := insert object_id (published_objects s1),
                           coordinate_buffers := (coordinate_buffers s1)(object_id \<mapsto> [])\<rparr>,
                        [Publish data, Loginfo_found name, Loginfo_published (data ! 0),
                         Espeak name],
                        None))))
         else (s1, [], None))"

definition publish_object_data :: "string list \<Rightarrow> dai_state \<Rightarrow> frame \<Rightarrow> detection \<Rightarrow>
    dai_state \<times> dai_event list \<times> py_error option" where
  "publish_object_data labels s fr d =
     (case labels_lookup labels (label d) of
        Inl e \<Rightarrow> (s, [], Some e)
      | Inr name \<Rightarrow>
         if name = ''backpack'' then aggregate s fr d 101 name
         else if name = ''person'' then aggregate s fr d 102 name
         else (s, [Logwarn ''This Object Identifier is unknown''], None))"

text \<open>
  The loops of \<open>run\<close> (lines 217-232) call \<open>publish_object_data\<close> for every detection of
  every frame, in order; an exception leaves \<open>run\<close> and \<open>main\<close>, so nothing follows it.
\<close>

fun run_detections :: "string list \<Rightarrow> dai_state \<Rightarrow> (frame \<times> detection) list \<Rightarrow>
    dai_state \<times> dai_event list \<times> py_error option" where
  "run_detections labels s [] = (s, [], None)"
| "run_detections labels s ((fr, d) # ds) =
     (case publish_object_data labels s fr d of
        (s1, evs, Some e) \<Rightarrow> (s1, evs, Some e)
      | (s1, evs, None) \<Rightarrow>
         (case run_detections labels s1 ds of (s2, evs2, r) \<Rightarrow> (s2, evs @ evs2, r)))"

text \<open>The payloads sent on \<open>/object_pose\<close>, and those whose first entry is a given object id.\<close>

fun reports :: "dai_event list \<Rightarrow> npfloat list list" where
  "reports [] = []"
| "reports (Publish data # evs) = data # reports evs"
| "reports (_ # evs) = reports evs"

definition report_id :: "npfloat list \<Rightarrow> npfloat option" where
  "report_id data = (case data of [] \<Rightarrow> None | x # _ \<Rightarrow> Some x)"

definition reports_for :: "int \<Rightarrow> dai_event list \<Rightarrow> npfloat list list" where
  "reports_for oid evs = filter (\<lambda>data. report_id data = Some (Num (of_int oid))) (reports evs)"

text \<open>The three parts of a result: the state, the events, and how the call ended.\<close>

definition state_of :: "'s \<times> 'e \<times> 'r \<Rightarrow> 's" where
  "state_of res = fst res"

definition events_of :: "'s \<times> 'e \<times> 'r \<Rightarrow> 'e" where
  "events_of res = fst (snd res)"

definition outcome_of :: "'s \<times> 'e \<times> 'r \<Rightarrow> 'r" where
  "outcome_of res = snd (snd res)"

text \<open>
  The elementwise arithmetic mean in the words of the specification: entry \<open>j\<close> of the mean
  of the observations \<open>c_1..c_W\<close> is the sum of their entries \<open>j\<close> divided by \<open>W\<close>.
\<close>

definition spec_elementwise_mean :: "int list list \<Rightarrow> nat \<Rightarrow> rat" where
  "spec_elementwise_mean cs j = (\<Sum>c\<leftarrow>cs. of_int (c ! j)) / of_nat (length cs)"

text \<open>A value lies within a tolerance of a rational number.\<close>

definition near :: "rat \<Rightarrow> npfloat \<Rightarrow> rat \<Rightarrow> bool" where
  "near eps v q = (case v of Num x \<Rightarrow> abs (x - q) \<le> eps | _ \<Rightarrow> False)"

text \<open>The scenario of the specification: a backpack on a 416 by 416 frame.\<close>

definition scenario_labels :: "string list" where
  "scenario_labels = [''backpack'', ''person'', ''drone'']"

definition scenario_frame :: frame where
  "scenario_frame = \<lparr>shape0 = 416, shape1 = 416\<rparr>"

definition scenario_detection :: detection where
  "scenario_detection =
     \<lparr>label = 0, xmin = Num (2 / 5), ymin = Num (2 / 5),
      xmax = Num (3 / 5), ymax = Num (3 / 5)\<rparr>"

text \<open>Ten sightings of one backpack whose box moves a little from frame to frame.\<close>

definition jitter_detection :: "nat \<Rightarrow> detection" where
  "jitter_detection k =
     \<lparr>label = 0, xmin = Num ((40 + of_nat k) / 100), ymin = Num (2 / 5),
      xmax = Num ((60 + 2 * of_nat k) / 100), ymax = Num (3 / 5)\<rparr>"

definition jitter_run :: "nat \<Rightarrow> (frame \<times> detection) list" where
  "jitter_run n = map (\<lambda>k. (scenario_frame, jitter_detection k)) [0..<n]"

section \<open>aruco_subscriber_pose.py: ArucoDetector\<close>

subsection \<open>Data\<close>

type_synonym vec3 = "rat \<times> rat \<times> rat"

type_synonym quat = "rat \<times> rat \<times> rat \<times> rat"

text \<open>The fields of the \<open>TransformStamped\<close> message that lines 128-137 fill in.\<close>

record transform_stamped =
  child_frame_id :: string
  translation :: vec3
  rotation :: quat

text \<open>
  \<open>detected_marker_ids\<close> is the set of line 48; \<open>speech_queue\<close> lists every batch that
  has been put on the queue of line 42, oldest first.
\<close>

record aruco_state =
  detected_marker_ids :: "int set"
  speech_queue :: "int list list"

definition aruco_init :: aruco_state where
  "aruco_init = \<lparr>detected_marker_ids = {}, speech_queue = []\<rparr>"

text \<open>
  What \<open>find_aruco\<close> looks up outside its own body: the attribute \<open>solvePnp\<close> of the
  \<open>cv2\<close> module (None when the module has no such attribute), whether the object has the
  attributes \<open>camera_matrix\<close>, \<open>dist_coeffs\<close> and \<open>tfbr\<close>, and the library function
  \<open>quaternion_from_euler\<close>. The class itself assigns none of the three attributes.
\<close>

record aruco_env =
  cv2_solvePnp :: "(vec3 list \<Rightarrow> (rat \<times> rat) list \<Rightarrow> bool \<times> vec3 \<times> vec3) option"
  has_camera_matrix :: bool
  has_dist_coeffs :: bool
  has_tfbr :: bool
  quaternion_from_euler :: "vec3 \<Rightarrow> quat"

datatype aruco_event =
    Loginfo_detected int
  | Loginfo_queued
  | Loginfo_pose_ok
  | Loginfo_rvec vec3
  | Loginfo_tvec vec3
  | Logerr_convert
  | SendTransform transform_stamped
  | Aruco_pub

text \<open>A marker as \<open>detectMarkers\<close> returns it: its corner array, flat, and its identifier.\<close>

type_synonym marker = "rat list \<times> int"

subsection \<open>find_aruco (lines 67-141)\<close>

text \<open>Lines 95-97: an identifier not seen before is added to \<open>new_ids\<close> and to the set.\<close>

definition unique_ids :: "aruco_state \<Rightarrow> int list \<Rightarrow> int \<Rightarrow> aruco_state \<times> int list" where
  "unique_ids s new_ids marker_ID =
     (if marker_ID \<notin> detected_marker_ids s
      then (s\<lparr>detected_marker_ids := insert marker_ID (detected_marker_ids s)\<rparr>,
            new_ids @ [marker_ID])
      else (s, new_ids))"

text \<open>
  The loop of lines 75-97. It rebinds the variable \<open>corners\<close> to the reshaped corner array
  of the marker at hand, so after the loop \<open>corners\<close> is the array of the last marker. The
  drawing calls only change the picture and are left out.
\<close>

fun marker_loop :: "aruco_state \<Rightarrow> int list \<Rightarrow> (rat \<times> rat) list \<Rightarrow> marker list \<Rightarrow>
    aruco_state \<times> aruco_event list \<times> (py_error + int list \<times> (rat \<times> rat) list)" where
  "marker_loop s new_ids corners [] = (s, [], Inr (new_ids, corners))"
| "marker_loop s new_ids corners ((marker_corner, marker_ID) # rest) =
     (case np_reshape42 marker_corner of
        Inl e \<Rightarrow> (s, [], Inl e)
      | Inr corners1 \<Rightarrow>
         (case unique_ids s new_ids marker_ID of
            (s1, new_ids1) \<Rightarrow>
              (case marker_loop s1 new_ids1 corners1 rest of
                 (s2, evs, r) \<Rightarrow> (s2, Loginfo_detected marker_ID # evs, r))))"

text \<open>Lines 101-103.\<close>

definition queue_new_ids :: "aruco_state \<Rightarrow> int list \<Rightarrow> aruco_state \<times> aruco_event list" where
  "queue_new_ids s new_ids =
     (if new_ids \<noteq> [] then (s\<lparr>speech_queue := speech_queue s @ [new_ids]\<rparr>, [Loginfo_queued])
      else (s, []))"

text \<open>Lines 106-112, with \<open>marker_size = 0.2\<close>.\<close>

definition object_points :: "vec3 list" where
  "object_points = [(- (1 / 10), - (1 / 10), 0), (1 / 10, - (1 / 10), 0),
                    (1 / 10, 1 / 10, 0), (- (1 / 10), 1 / 10, 0)]"

text \<open>
  Lines 115-137. \<open>corners[0]\<close> is the first row of the array left by the loop, a single
  point, and line 115 reshapes it to four points. The result is the events and the value of
  \<open>msg_out\<close>, which stays unbound (None) when the solver reports no success.
\<close>

definition estimate_pose :: "aruco_env \<Rightarrow> (rat \<times> rat) list \<Rightarrow>
    py_error + aruco_event list \<times> transform_stamped option" where
  "estimate_pose env corners =
     (case corners of
        [] \<Rightarrow> Inl IndexError
      | p # _ \<Rightarrow>
         (case np_reshape42 [fst p, snd p] of
            Inl e \<Rightarrow> Inl e
          | Inr image_points \<Rightarrow>
             (case cv2_solvePnp env of
                None \<Rightarrow> Inl AttributeError
              | Some solve \<Rightarrow>
                 if \<not> has_camera_matrix env \<or> \<not> has_dist_coeffs env then Inl AttributeError
                 else
                   (case solve object_points image_points of
                      (success, rvec, tvec) \<Rightarrow>
                        if success then
                          Inr ([Loginfo_pose_ok, Loginfo_rvec rvec, Loginfo_tvec tvec],
                               Some \<lparr>child_frame_id = ''aruco_marker'', translation = tvec,
                                     rotation = quaternion_from_euler env rvec\<rparr>)
                        else Inr ([], None)))))"

text \<open>Line 139: \<open>self.tfbr\<close> is looked up first, then \<open>msg_out\<close> is read.\<close>

definition send_transform :: "aruco_env \<Rightarrow> transform_stamped option \<Rightarrow>
    py_error + aruco_event list" where
  "send_transform env msg_out =
     (if \<not> has_tfbr env then Inl AttributeError
      else (case msg_out of None \<Rightarrow> Inl UnboundLocalError | Some m \<Rightarrow> Inr [SendTransform m]))"

text \<open>
  The whole function, on the markers that \<open>detectMarkers\<close> found in the frame. The changes
  made to the object before an exception stay.
\<close>

definition find_aruco :: "aruco_env \<Rightarrow> aruco_state \<Rightarrow> marker list \<Rightarrow>
    aruco_state \<times> aruco_event list \<times> (py_error + unit)" where
  "find_aruco env s markers =
     (if length markers > 0 then
        (case marker_loop s [] [] markers of
           (s1, evs1, Inl e) \<Rightarrow> (s1, evs1, Inl e)
         | (s1, evs1, Inr (new_ids, corners)) \<Rightarrow>
            (case queue_new_ids s1 new_ids of
               (s2, evs2) \<Rightarrow>
                 (case estimate_pose env corners of
                    Inl e \<Rightarrow> (s2, evs1 @ evs2, Inl e)
                  | Inr (evs3, msg_out) \<Rightarrow>
                     (case send_transform env msg_out of
                        Inl e \<Rightarrow> (s2, evs1 @ evs2 @ evs3, Inl e)
                      | Inr evs4 \<Rightarrow> (s2, evs1 @ evs2 @ evs3 @ evs4, Inr ())))))
      else
        (case send_transform env None of
           Inl e \<Rightarrow> (s, [], Inl e)
         | Inr evs \<Rightarrow> (s, evs, Inr ())))"

subsection \<open>img_callback (lines 55-64)\<close>

text \<open>
  The message either decodes to a frame, given here by its markers, or the conversion fails
  (None): the failure is logged and \<open>frame\<close> is then read unbound. The picture is published
  only when \<open>find_aruco\<close> returns.
\<close>

definition img_callback :: "aruco_env \<Rightarrow> aruco_state \<Rightarrow> marker list option \<Rightarrow>
    aruco_state \<times> aruco_event list \<times> (py_error + unit)" where
  "img_callback env s msg_in =
     (case msg_in of
        None \<Rightarrow> (s, [Logerr_convert], Inl UnboundLocalError)
      | Some markers \<Rightarrow>
         (case find_aruco env s markers of
            (s1, evs, Inl e) \<Rightarrow> (s1, evs, Inl e)
          | (s1, evs, Inr _) \<Rightarrow> (s1, evs @ [Aruco_pub], Inr ())))"

text \<open>
  The subscriber calls \<open>img_callback\<close> for one message after the other; an exception ends
  the call it is raised in and the next message is handled on the state it left.
\<close>

fun img_callbacks :: "aruco_env \<Rightarrow> aruco_state \<Rightarrow> marker list option list \<Rightarrow>
    aruco_state \<times> aruco_event list" where
  "img_callbacks env s [] = (s, [])"
| "img_callbacks env s (m # ms) =
     (case img_callback env s m of
        (s1, evs, _) \<Rightarrow> (case img_callbacks env s1 ms of (s2, evs2) \<Rightarrow> (s2, evs @ evs2)))"

text \<open>Every identifier put on the speech queue so far, in order.\<close>

definition announced :: "aruco_state \<Rightarrow> int list" where
  "announced s = concat (speech_queue s)"

text \<open>The poses sent by a list of events.\<close>

fun poses :: "aruco_event list \<Rightarrow> transform_stamped list" where
  "poses [] = []"
| "poses (SendTransform m # evs) = m # poses evs"
| "poses (_ # evs) = poses evs"

text \<open>A square marker, and a second marker with another identifier.\<close>

definition square_marker :: marker where
  "square_marker = ([100, 100, 200, 100, 200, 200, 100, 200], 7)"

definition other_marker :: marker where
  "other_marker = ([300, 50, 360, 50, 360, 110, 300, 110], 9)"

text \<open>
  An environment for evaluation in which every lookup succeeds and the solver always
  reports success with one fixed pose.
\<close>

definition favourable_env :: aruco_env where
  "favourable_env =
     \<lparr>cv2_solvePnp = Some (\<lambda>obj img. (True, (0, 0, 0), (0, 0, 1))),
      has_camera_matrix = True, has_dist_coeffs = True, has_tfbr = True,
      quaternion_from_euler = (\<lambda>rvec. (0, 0, 0, 1))\<rparr>"

text \<open>The square marker again, seen at another place in a later frame.\<close>

definition moved_marker :: marker where
  "moved_marker = ([150, 120, 250, 120, 250, 220, 150, 220], 7)"

section \<open>Properties of the object detector node\<close>

subsection \<open>Rounding to float64\<close>

lemma fexp_le:
  assumes "0 < x"
  shows "2 powi (fexp x) \<le> x"
proof -
  obtain p q where pq: "quotient_of x = (p, q)" by (cases "quotient_of x")
  have q: "0 < q" using quotient_of_denom_pos[OF pq] .
  have x: "x = of_int p / of_int q" using quotient_of_div[OF pq] .
  have p: "0 < p" using assms q unfolding x by (simp add: zero_less_divide_iff)
  define d where "d = bitlen p - bitlen q"
  have fe: "fexp x = (if 2 powi d \<le> x then d else d - 1)"
    by (simp add: fexp_def pq d_def Let_def)
  show ?thesis
  proof (cases "2 powi d \<le> x")
    case True
    then show ?thesis by (simp add: fe)
  next
    case False
    have bp: "1 \<le> bitlen p" and bq: "1 \<le> bitlen q"
      using p q by (auto simp: bitlen_alt_def)
    have lo: "(2::rat) ^ nat (bitlen p - 1) \<le> of_int p"
    proof -
      have "(2::int) ^ nat (bitlen p - 1) \<le> p" using bitlen_bounds[OF p] by simp
      then have "of_int ((2::int) ^ nat (bitlen p - 1)) \<le> (of_int p :: rat)"
        by (simp only: of_int_le_iff)
      then show ?thesis by simp
    qed
    have hi: "of_int q \<le> (2::rat) ^ nat (bitlen q)"
    proof -
      have "q \<le> (2::int) ^ nat (bitlen q)" using bitlen_bounds[OF q] by simp
      then have "(of_int q :: rat) \<le> of_int ((2::int) ^ nat (bitlen q))"
        by (simp only: of_int_le_iff)
      then show ?thesis by simp
    qed
    have "(2::rat) powi (d - 1) = 2 powi (bitlen p - 1) / 2 powi (bitlen q)"
      by (simp add: d_def power_int_diff)
    also have "\<dots> = 2 ^ nat (bitlen p - 1) / 2 ^ nat (bitlen q)"
      using bp bq by (simp add: power_int_nonneg_exp)
    also have "\<dots> \<le> of_int p / 2 ^ nat (bitlen q)"
      using lo by (simp add: divide_right_mono)
    also have "\<dots> \<le> of_int p / of_int q"
      using hi p q by (simp add: divide_left_mono)
    finally have low: "(2::rat) powi (d - 1) \<le> of_int p / of_int q" .
    have "2 powi (d - 1) \<le> x" by (simp only: x low)
    then show ?thesis using False by (simp add: fe)
  qed
qed

lemma round_half_even_nonneg: "0 \<le> y \<Longrightarrow> 0 \<le> round_half_even y"
  by (auto simp: round_half_even_def Let_def)

lemma round_half_even_le:
  assumes "y \<le> of_int m"
  shows "round_half_even y \<le> m"
proof -
  have f: "\<lfloor>y\<rfloor> \<le> m" using assms by (simp add: floor_le_iff)
  show ?thesis
  proof (cases "\<lfloor>y\<rfloor> = m")
    case True
    then have "y = of_int m" using assms of_int_floor_le[of y] by simp
    then show ?thesis by (simp add: round_half_even_def)
  next
    case False
    then have "\<lfloor>y\<rfloor> + 1 \<le> m" using f by simp
    then show ?thesis by (auto simp: round_half_even_def Let_def)
  qed
qed

lemma round_half_even_of_int: "round_half_even (of_int m) = m"
  by (simp add: round_half_even_def)

text \<open>An integer up to \<open>2^53\<close> is a multiple of the unit in the last place of any smaller value.\<close>

lemma nat_multiple_of_ulp:
  assumes x: "0 < x" and le: "x \<le> of_nat n" and n: "n \<le> 2 ^ 53"
  shows "\<exists>m::int. (of_nat n :: rat) = of_int m * 2 powi (max (fexp x) (- 1022) - 52)"
proof -
  define e where "e = max (fexp x) (- 1022)"
  show ?thesis
  proof (cases "e \<le> 52")
    case True
    define k where "k = nat (52 - e)"
    have "(2::rat) powi (e - 52) = 2 powi (- int k)" using True by (simp add: k_def)
    also have "\<dots> = 1 / 2 ^ k" by (simp add: power_int_minus_divide)
    finally have u: "(2::rat) powi (e - 52) = 1 / 2 ^ k" .
    have "(of_nat n :: rat) = of_int (int n * 2 ^ k) * (1 / 2 ^ k)" by simp
    then show ?thesis unfolding e_def[symmetric] u by blast
  next
    case False
    then have e: "e = fexp x" and big: "53 \<le> fexp x" by (auto simp: e_def)
    have "(2::rat) powi 53 \<le> 2 powi (fexp x)"
      using big by (intro power_int_increasing) simp_all
    also have "\<dots> \<le> x" by (rule fexp_le[OF x])
    also have "\<dots> \<le> of_nat n" by (rule le)
    finally have lo: "(2::rat) ^ 53 \<le> of_nat n" by simp
    have "(of_nat n :: rat) \<le> of_nat (2 ^ 53)" using n by (simp only: of_nat_le_iff)
    then have n53: "(of_nat n :: rat) = 2 ^ 53" using lo by simp
    have "(2::rat) powi (fexp x) \<le> 2 ^ 53"
      using fexp_le[OF x] le n53 by simp
    then have "(2::rat) powi (fexp x) \<le> 2 powi 53"
      by (simp only: power_int_numeral)
    then have "fexp x \<le> 53"
      by (rule power_int_le_imp_le_exp[rotated]) simp_all
    then have "fexp x = 53" using big by simp
    then have "(of_nat n :: rat) = of_int (2 ^ 52) * 2 powi (e - 52)"
      by (simp add: e n53)
    then show ?thesis unfolding e_def by blast
  qed
qed

lemma round64_pos:
  assumes pos: "0 < x"
    and small: "of_int (round_half_even (x / 2 powi (max (fexp x) (- 1022) - 52)))
                  * 2 powi (max (fexp x) (- 1022) - 52) < (2::rat) ^ 1024"
  shows "round64 x = Num (of_int (round_half_even (x / 2 powi (max (fexp x) (- 1022) - 52)))
                           * 2 powi (max (fexp x) (- 1022) - 52))"
proof -
  define e where "e = max (fexp x) (- 1022)"
  define r :: rat where "r = of_int (round_half_even (x / 2 powi (e - 52))) * 2 powi (e - 52)"
  have unfold: "round64 x = (if e < 1023 then Num r
                             else if 2 powi 1024 \<le> r then PInf else Num r)"
    unfolding round64_def Let_def e_def r_def using pos by simp
  have "\<not> 2 powi 1024 \<le> r" using small unfolding r_def e_def by simp
  then have "round64 x = Num r" unfolding unfold by simp
  then show ?thesis unfolding r_def e_def .
qed

lemma round64_bounded:
  assumes x: "0 \<le> x" and le: "x \<le> of_nat n" and n: "n \<le> 2 ^ 53"
  shows "\<exists>r. round64 x = Num r \<and> 0 \<le> r \<and> r \<le> of_nat n"
proof (cases "x = 0")
  case True
  then show ?thesis by (simp add: round64_def)
next
  case False
  then have pos: "0 < x" using x by simp
  define u :: rat where "u = 2 powi (max (fexp x) (- 1022) - 52)"
  define r where "r = of_int (round_half_even (x / u)) * u"
  have u: "0 < u" by (simp add: u_def)
  obtain m :: int where m: "(of_nat n :: rat) = of_int m * u"
    using nat_multiple_of_ulp[OF pos le n] unfolding u_def by blast
  have "x / u \<le> of_int m" using le u unfolding m by (simp add: pos_divide_le_eq)
  then have "round_half_even (x / u) \<le> m" by (rule round_half_even_le)
  then have "(of_int (round_half_even (x / u)) :: rat) \<le> of_int m" by (simp only: of_int_le_iff)
  then have "r \<le> of_int m * u" unfolding r_def using u by (simp add: mult_right_mono)
  then have hi: "r \<le> of_nat n" unfolding m .
  have "0 \<le> x / u" using pos u by simp
  then have "0 \<le> round_half_even (x / u)" by (rule round_half_even_nonneg)
  then have lo: "0 \<le> r" unfolding r_def using u by simp
  have "(of_nat n :: rat) \<le> of_nat (2 ^ 53)" using n by (simp only: of_nat_le_iff)
  then have "r \<le> 2 ^ 53" using hi by simp
  also have "(2::rat) ^ 53 < 2 ^ 1024" by simp
  finally have small: "r < 2 ^ 1024" .
  have "round64 x = Num r"
    using round64_pos[OF pos small[unfolded r_def u_def]] unfolding r_def u_def .
  then show ?thesis using lo hi by blast
qed

lemma round64_of_nat:
  assumes n: "n \<le> 2 ^ 53"
  shows "round64 (of_nat n) = Num (of_nat n)"
proof (cases "n = 0")
  case True
  then show ?thesis by (simp add: round64_def)
next
  case False
  then have pos: "0 < (of_nat n :: rat)" by simp
  define u :: rat where "u = 2 powi (max (fexp (of_nat n)) (- 1022) - 52)"
  define r where "r = of_int (round_half_even (of_nat n / u)) * u"
  have u: "0 < u" by (simp add: u_def)
  obtain m :: int where m: "(of_nat n :: rat) = of_int m * u"
    using nat_multiple_of_ulp[OF pos order_refl n] unfolding u_def by blast
  have "of_nat n / u = (of_int m :: rat)" using u unfolding m by simp
  then have "r = of_int m * u" unfolding r_def by (simp only: round_half_even_of_int)
  then have r: "r = of_nat n" unfolding m .
  have "(of_nat n :: rat) \<le> of_nat (2 ^ 53)" using n by (simp only: of_nat_le_iff)
  then have "r \<le> 2 ^ 53" unfolding r by simp
  also have "(2::rat) ^ 53 < 2 ^ 1024" by simp
  finally have small: "r < 2 ^ 1024" .
  have "round64 (of_nat n) = Num r"
    using round64_pos[OF pos small[unfolded r_def u_def]] unfolding r_def u_def .
  then show ?thesis unfolding r .
qed

subsection \<open>The coordinate normaliser\<close>

lemma frameNorm_four: "frameNorm fr [a, b, c, d] =
   [astype_int (np_multiply (np_clip a 0 1) (int (shape1 fr))),
    astype_int (np_multiply (np_clip b 0 1) (int (shape0 fr))),
    astype_int (np_multiply (np_clip c 0 1) (int (shape1 fr))),
    astype_int (np_multiply (np_clip d 0 1) (int (shape0 fr)))]"
  by (simp add: frameNorm_def assign_step2_def upt_rec nth_Cons')

lemma np_clip_unit:
  assumes "v \<noteq> NaN"
  shows "\<exists>c. np_clip v 0 1 = Num c \<and> 0 \<le> c \<and> c \<le> 1"
  using assms by (cases v) (simp_all add: np_clip_def)

lemma pixel_bounds:
  assumes v: "v \<noteq> NaN" and n: "n \<le> 2 ^ 53"
  shows "0 \<le> astype_int (np_multiply (np_clip v 0 1) (int n))
       \<and> astype_int (np_multiply (np_clip v 0 1) (int n)) \<le> int n"
proof -
  obtain c where c: "np_clip v 0 1 = Num c" "0 \<le> c" "c \<le> 1"
    using np_clip_unit[OF v] by blast
  have prod: "np_multiply (np_clip v 0 1) (int n) = round64 (c * of_nat n)"
    by (simp add: np_multiply_def fmul_def c(1) round64_of_nat[OF n])
  have "0 \<le> c * of_nat n" using c(2) by simp
  moreover have "c * of_nat n \<le> 1 * of_nat n"
    using c(3) by (intro mult_right_mono) simp_all
  then have "c * of_nat n \<le> of_nat n" by simp
  ultimately obtain r where r: "round64 (c * of_nat n) = Num r" "0 \<le> r" "r \<le> of_nat n"
    using round64_bounded[OF _ _ n] by blast
  have lo: "0 \<le> \<lfloor>r\<rfloor>" using r(2) by simp
  have "r \<le> of_int (int n)" using r(3) by simp
  then have hi: "\<lfloor>r\<rfloor> \<le> int n" by (simp add: floor_le_iff)
  have "(of_nat n :: rat) \<le> of_nat (2 ^ 53)" using n by (simp only: of_nat_le_iff)
  then have "r \<le> 2 ^ 53" using r(3) by simp
  also have "(2::rat) ^ 53 < 2 ^ 63" by simp
  finally have rlt: "r < 2 ^ 63" .
  have "- (2 ^ 63) \<le> r" using r(2) by simp
  then have "astype_int (Num r) = \<lfloor>r\<rfloor>"
    using r(2) rlt by (simp add: astype_int_def int64_min_def Let_def floor_less_iff le_floor_iff)
  then show ?thesis using lo hi by (simp add: prod r(1))
qed

text \<open>Evaluating a pixel coordinate without carrying out the rounding.\<close>

lemma round_half_even_ge:
  assumes "of_int m \<le> y"
  shows "m \<le> round_half_even y"
proof -
  have "m \<le> \<lfloor>y\<rfloor>" using assms by (simp add: le_floor_iff)
  then show ?thesis by (auto simp: round_half_even_def Let_def)
qed

lemma round_half_even_upper: "of_int (round_half_even y) \<le> y + 1 / 2"
proof -
  define f where "f = \<lfloor>y\<rfloor>"
  define d where "d = y - of_int f"
  have f: "of_int f \<le> y" by (simp add: f_def)
  have rhe: "round_half_even y =
      (if d < 1 / 2 then f else if 1 / 2 < d then f + 1 else if even f then f else f + 1)"
    by (simp add: round_half_even_def Let_def f_def d_def)
  show ?thesis
  proof (cases "d < 1 / 2")
    case True
    then show ?thesis using f by (simp add: rhe)
  next
    case False
    then have "of_int f + 1 \<le> y + 1 / 2" by (simp add: d_def)
    moreover have "round_half_even y \<le> f + 1" by (simp add: rhe)
    then have "(of_int (round_half_even y) :: rat) \<le> of_int (f + 1)" by (simp only: of_int_le_iff)
    ultimately show ?thesis by simp
  qed
qed

lemma floor_rat_numeral: "\<lfloor>(numeral a :: rat) / numeral b\<rfloor> = numeral a div numeral b"
  using floor_divide_of_int_eq[of "numeral a" "numeral b", where ?'a = rat] by simp

lemma np_multiply_Num:
  assumes "0 \<le> k" and "k \<le> 2 ^ 53"
  shows "np_multiply (Num q) k = round64 (q * of_int k)"
proof -
  have "nat k \<le> 2 ^ 53" using assms by (simp add: nat_le_iff)
  from round64_of_nat[OF this] have "round64 (of_int k) = Num (of_int k)"
    using assms(1) by simp
  then show ?thesis by (simp add: np_multiply_def fmul_def)
qed

lemma astype_int_round64:
  assumes x0: "0 \<le> x" and x31: "x < 2 ^ 31" and frac: "x - of_int \<lfloor>x\<rfloor> \<le> 1 - 1 / 2 ^ 20"
  shows "astype_int (round64 x) = \<lfloor>x\<rfloor>"
proof (cases "x = 0")
  case True
  then show ?thesis by (simp add: round64_def astype_int_def int64_min_def)
next
  case False
  then have pos: "0 < x" using x0 by simp
  define e where "e = max (fexp x) (- 1022)"
  define u :: rat where "u = 2 powi (e - 52)"
  define r where "r = of_int (round_half_even (x / u)) * u"
  define k where "k = \<lfloor>x\<rfloor>"
  have u: "0 < u" by (simp add: u_def)
  have "(2::rat) powi (fexp x) \<le> x" by (rule fexp_le[OF pos])
  also have "x < 2 powi 31" using x31 by simp
  finally have "fexp x < 31" by (rule power_int_le_imp_less_exp[rotated]) simp_all
  then have e30: "e \<le> 30" by (simp add: e_def)
  define m where "m = nat (52 - e)"
  have "u = 2 powi (- int m)" using e30 by (simp add: u_def m_def)
  also have "\<dots> = 1 / 2 ^ m" by (simp add: power_int_minus_divide)
  finally have um: "u = 1 / 2 ^ m" .
  have m22: "22 \<le> m" using e30 by (simp add: m_def)
  have "(2::rat) ^ 22 \<le> 2 ^ m" using m22 by (intro power_increasing) simp_all
  then have usmall: "u \<le> 1 / 2 ^ 22" unfolding um by (simp add: divide_simps)
  have mult: "(of_int j :: rat) = of_int (j * 2 ^ m) * u" for j by (simp add: um)
  have kx: "of_int k \<le> x" by (simp add: k_def)
  have "of_int (k * 2 ^ m) \<le> x / u" using kx u unfolding mult[of k] by (simp add: pos_le_divide_eq)
  then have "k * 2 ^ m \<le> round_half_even (x / u)" by (rule round_half_even_ge)
  then have "(of_int (k * 2 ^ m) :: rat) \<le> of_int (round_half_even (x / u))"
    by (simp only: of_int_le_iff)
  then have "of_int (k * 2 ^ m) * u \<le> r" unfolding r_def using u by (simp add: mult_right_mono)
  then have lo: "of_int k \<le> r" unfolding mult[of k, symmetric] .
  have "r \<le> (x / u + 1 / 2) * u"
    unfolding r_def using round_half_even_upper[of "x / u"] u by (simp add: mult_right_mono)
  also have "\<dots> = x + u / 2" using u by (simp add: algebra_simps)
  also have "\<dots> \<le> x + 1 / 2 ^ 23" using usmall by simp
  also have "\<dots> \<le> of_int k + 1 - 1 / 2 ^ 20 + 1 / 2 ^ 23" using frac by (simp add: k_def)
  also have "\<dots> < of_int k + 1" by simp
  finally have hi: "r < of_int k + 1" .
  have fl: "\<lfloor>r\<rfloor> = k" using lo hi by (simp add: floor_unique)
  have "of_int k < (2::rat) ^ 31" using kx x31 by simp
  then have "(of_int k :: rat) < of_int (2 ^ 31)" by simp
  then have k31: "k < 2 ^ 31" by (simp only: of_int_less_iff)
  have k0: "0 \<le> k" using x0 by (simp add: k_def)
  have "k + 1 \<le> 2 ^ 31" using k31 by simp
  then have "(of_int (k + 1) :: rat) \<le> of_int (2 ^ 31)" by (simp only: of_int_le_iff)
  then have k1: "(of_int k :: rat) + 1 \<le> 2 ^ 31" by simp
  have "r < of_int k + 1" by (rule hi)
  also have "(of_int k :: rat) + 1 \<le> 2 ^ 31" by (rule k1)
  also have "(2::rat) ^ 31 < 2 ^ 1024" by simp
  finally have small: "r < 2 ^ 1024" .
  have "round64 x = Num r"
    using round64_pos[OF pos small[unfolded r_def u_def e_def]] unfolding r_def u_def e_def .
  moreover have "(0::rat) \<le> of_int k" using k0 by simp
  then have "0 \<le> r" using lo by simp
  ultimately show ?thesis
    using fl k0 k31 by (simp add: astype_int_def int64_min_def Let_def k_def)
qed

subsection \<open>One call of publish_object_data\<close>

lemma aggregate_not_ready:
  assumes "\<not> (length (deque_append (buffer_of s oid) (flatten (corners_of fr d))) = 10
             \<and> oid \<notin> published_objects s)"
  shows "aggregate s fr d oid name =
     (s\<lparr>coordinate_buffers := (coordinate_buffers s)
          (oid \<mapsto> deque_append (buffer_of s oid) (flatten (corners_of fr d)))\<rparr>, [], None)"
  using assms unfolding aggregate_def Let_def by auto

lemma aggregate_mean_error:
  assumes "length (deque_append (buffer_of s oid) (flatten (corners_of fr d))) = 10"
    and "oid \<notin> published_objects s"
    and "np_mean_axis0 (deque_append (buffer_of s oid) (flatten (corners_of fr d))) = Inl e"
  shows "aggregate s fr d oid name =
     (s\<lparr>coordinate_buffers := (coordinate_buffers s)
          (oid \<mapsto> deque_append (buffer_of s oid) (flatten (corners_of fr d)))\<rparr>, [], Some e)"
  using assms unfolding aggregate_def Let_def by simp

lemma aggregate_reshape_error:
  assumes "length (deque_append (buffer_of s oid) (flatten (corners_of fr d))) = 10"
    and "oid \<notin> published_objects s"
    and "np_mean_axis0 (deque_append (buffer_of s oid) (flatten (corners_of fr d))) = Inr avg"
    and "np_reshape42 avg = Inl e"
  shows "aggregate s fr d oid name =
     (s\<lparr>coordinate_buffers := (coordinate_buffers s)
          (oid \<mapsto> deque_append (buffer_of s oid) (flatten (corners_of fr d)))\<rparr>, [], Some e)"
  using assms unfolding aggregate_def Let_def by simp

lemma aggregate_ready:
  assumes "length (deque_append (buffer_of s oid) (flatten (corners_of fr d))) = 10"
    and "oid \<notin> published_objects s"
    and "np_mean_axis0 (deque_append (buffer_of s oid) (flatten (corners_of fr d))) = Inr avg"
    and "np_reshape42 avg = Inr avg_corners"
  shows "aggregate s fr d oid name =
     (s\<lparr>coordinate_buffers := (coordinate_buffers s)(oid \<mapsto> []),
        published_objects := insert oid (published_objects s)\<rparr>,
      [Publish (Num (of_int oid) # map Num (flatten avg_corners)
                @ [marker_length_x fr d, marker_length_y fr d]),
       Loginfo_found name, Loginfo_published (Num (of_int oid)), Espeak name],
      None)"
  using assms unfolding aggregate_def Let_def by simp

lemma aggregate_cases:
  assumes "aggregate s fr d oid name = (s', evs, r)"
  shows "(reports evs = [] \<and> published_objects s' = published_objects s)
   \<or> (\<exists>data. reports evs = [data]
         \<and> report_id data = Some (Num (of_int oid)) \<and> oid \<notin> published_objects s
         \<and> published_objects s' = insert oid (published_objects s) \<and> r = None)"
proof (cases "length (deque_append (buffer_of s oid) (flatten (corners_of fr d))) = 10
             \<and> oid \<notin> published_objects s")
  case False
  show ?thesis using assms unfolding aggregate_not_ready[OF False] by auto
next
  case True
  then have len: "length (deque_append (buffer_of s oid) (flatten (corners_of fr d))) = 10"
    and new: "oid \<notin> published_objects s" by simp_all
  show ?thesis
  proof (cases "np_mean_axis0 (deque_append (buffer_of s oid) (flatten (corners_of fr d)))")
    case (Inl e)
    show ?thesis using assms unfolding aggregate_mean_error[OF len new Inl] by auto
  next
    case (Inr avg)
    show ?thesis
    proof (cases "np_reshape42 avg")
      case (Inl e)
      show ?thesis using assms unfolding aggregate_reshape_error[OF len new Inr Inl] by auto
    next
      case avg_corners: (Inr avg_corners)
      show ?thesis using assms new
        unfolding aggregate_ready[OF len new Inr avg_corners] by (auto simp: report_id_def)
    qed
  qed
qed

lemma publish_cases:
  assumes "publish_object_data labels s fr d = (s', evs, r)"
  shows "(reports evs = [] \<and> published_objects s' = published_objects s)
   \<or> (\<exists>data oid. reports evs = [data]
         \<and> report_id data = Some (Num (of_int oid)) \<and> oid \<notin> published_objects s
         \<and> published_objects s' = insert oid (published_objects s) \<and> r = None)"
proof (cases "labels_lookup labels (label d)")
  case (Inl e)
  then show ?thesis using assms by (simp add: publish_object_data_def)
next
  case (Inr name)
  consider (backpack) "name = ''backpack''"
    | (person) "name \<noteq> ''backpack''" "name = ''person''"
    | (unknown) "name \<noteq> ''backpack''" "name \<noteq> ''person''" by blast
  then show ?thesis
  proof cases
    case backpack
    then have "aggregate s fr d 101 name = (s', evs, r)"
      using assms Inr by (simp add: publish_object_data_def)
    from aggregate_cases[OF this] show ?thesis by blast
  next
    case person
    then have "aggregate s fr d 102 name = (s', evs, r)"
      using assms Inr by (simp add: publish_object_data_def)
    from aggregate_cases[OF this] show ?thesis by blast
  next
    case unknown
    then show ?thesis using assms Inr by (auto simp add: publish_object_data_def)
  qed
qed

lemma publish_reports_for:
  assumes "publish_object_data labels s fr d = (s', evs, r)"
  shows "published_objects s \<subseteq> published_objects s'"
    and "oid \<in> published_objects s \<Longrightarrow> reports_for oid evs = []"
    and "length (reports_for oid evs) \<le> 1"
    and "reports_for oid evs \<noteq> [] \<Longrightarrow> oid \<in> published_objects s'"
proof -
  from publish_cases[OF assms] consider
      (quiet) "reports evs = []" "published_objects s' = published_objects s"
    | (sent) data oid' where "reports evs = [data]"
        "report_id data = Some (Num (of_int oid'))" "oid' \<notin> published_objects s"
        "published_objects s' = insert oid' (published_objects s)"
    by blast
  note cs = this
  show "published_objects s \<subseteq> published_objects s'"
    by (rule cs) auto
  show "oid \<in> published_objects s \<Longrightarrow> reports_for oid evs = []"
    by (rule cs) (auto simp: reports_for_def)
  show "length (reports_for oid evs) \<le> 1"
    by (rule cs) (simp_all add: reports_for_def)
  show "reports_for oid evs \<noteq> [] \<Longrightarrow> oid \<in> published_objects s'"
    by (rule cs) (auto simp: reports_for_def split: if_splits)
qed

subsection \<open>The detection loop\<close>

lemma reports_append: "reports (xs @ ys) = reports xs @ reports ys"
  by (induction xs rule: reports.induct) simp_all

lemma reports_for_append: "reports_for oid (xs @ ys) = reports_for oid xs @ reports_for oid ys"
  by (simp add: reports_for_def reports_append)

lemma run_detections_Cons_error:
  "publish_object_data labels s fr d = (s1, e1, Some e) \<Longrightarrow>
     run_detections labels s ((fr, d) # ds) = (s1, e1, Some e)"
  by simp

lemma run_detections_Cons_ok:
  "publish_object_data labels s fr d = (s1, e1, None) \<Longrightarrow>
   run_detections labels s1 ds = (s2, e2, r2) \<Longrightarrow>
     run_detections labels s ((fr, d) # ds) = (s2, e1 @ e2, r2)"
  by simp

lemma run_published_silent:
  "oid \<in> published_objects s \<Longrightarrow> run_detections labels s ds = (s', evs, r) \<Longrightarrow>
     reports_for oid evs = []"
proof (induction ds arbitrary: s s' evs r)
  case Nil
  then show ?case by (simp add: reports_for_def)
next
  case (Cons p ds)
  obtain fr d where p: "p = (fr, d)" by (cases p)
  obtain s1 e1 r1 where step: "publish_object_data labels s fr d = (s1, e1, r1)"
    by (cases "publish_object_data labels s fr d")
  have quiet: "reports_for oid e1 = []" and mem: "oid \<in> published_objects s1"
    using publish_reports_for(1,2)[OF step] Cons.prems(1) by auto
  show ?case
  proof (cases r1)
    case (Some e)
    have "evs = e1"
      using Cons.prems(2) run_detections_Cons_error[OF step[unfolded Some]] p by simp
    then show ?thesis using quiet by simp
  next
    case None
    obtain s2 e2 r2 where rest: "run_detections labels s1 ds = (s2, e2, r2)"
      by (cases "run_detections labels s1 ds")
    have "reports_for oid e2 = []" using Cons.IH[OF mem rest] .
    moreover have "evs = e1 @ e2"
      using Cons.prems(2) run_detections_Cons_ok[OF step[unfolded None] rest] p by simp
    ultimately show ?thesis using quiet by (simp add: reports_for_append)
  qed
qed

lemma run_at_most_one:
  "run_detections labels s ds = (s', evs, r) \<Longrightarrow> length (reports_for oid evs) \<le> 1"
proof (induction ds arbitrary: s s' evs r)
  case Nil
  then show ?case by (simp add: reports_for_def)
next
  case (Cons p ds)
  obtain fr d where p: "p = (fr, d)" by (cases p)
  obtain s1 e1 r1 where step: "publish_object_data labels s fr d = (s1, e1, r1)"
    by (cases "publish_object_data labels s fr d")
  have one: "length (reports_for oid e1) \<le> 1" using publish_reports_for(3)[OF step] .
  show ?case
  proof (cases r1)
    case (Some e)
    have "evs = e1"
      using Cons.prems run_detections_Cons_error[OF step[unfolded Some]] p by simp
    then show ?thesis using one by simp
  next
    case None
    obtain s2 e2 r2 where rest: "run_detections labels s1 ds = (s2, e2, r2)"
      by (cases "run_detections labels s1 ds")
    have evs: "evs = e1 @ e2"
      using Cons.prems run_detections_Cons_ok[OF step[unfolded None] rest] p by simp
    show ?thesis
    proof (cases "reports_for oid e1 = []")
      case True
      then show ?thesis using Cons.IH[OF rest] evs by (simp add: reports_for_append)
    next
      case False
      then have "oid \<in> published_objects s1" using publish_reports_for(4)[OF step] by simp
      then have "reports_for oid e2 = []" using run_published_silent rest by blast
      then show ?thesis using one evs by (simp add: reports_for_append)
    qed
  qed
qed

subsection \<open>Averaging and reshaping\<close>

lemma list_of_length_8:
  assumes "length xs = 8"
  obtains a b c d e f g h where "xs = [a, b, c, d, e, f, g, h]"
proof -
  from assms have "\<exists>a b c d e f g h. xs = [a, b, c, d, e, f, g, h]"
    by (simp add: eval_nat_numeral length_Suc_conv) blast
  then show ?thesis using that by blast
qed

lemma flatten_reshape42:
  assumes "np_reshape42 xs = Inr pts"
  shows "flatten pts = xs" and "length xs = 8"
proof -
  show len: "length xs = 8" using assms by (simp add: np_reshape42_def split: if_splits)
  then obtain a b c d e f g h where xs: "xs = [a, b, c, d, e, f, g, h]"
    by (rule list_of_length_8)
  show "flatten pts = xs" using assms unfolding xs
    by (auto simp add: np_reshape42_def flatten_def)
qed

lemma np_mean_axis0_nth:
  assumes mean: "np_mean_axis0 rows = Inr avg" and ne: "rows \<noteq> []" and j: "j < length avg"
  shows "avg ! j = spec_elementwise_mean rows j"
proof -
  define n where "n = length (hd rows)"
  have rect: "\<And>i. i < length rows \<Longrightarrow> length (rows ! i) = n"
    using mean by (auto simp add: np_mean_axis0_def n_def list_all_length split: if_splits)
  have tr: "transpose rows = map (\<lambda>i. map (\<lambda>k. rows ! k ! i) [0..<length rows]) [0..<n]"
    by (rule transpose_rectangle) (use ne rect in auto)
  have avg: "avg = map (\<lambda>col. of_int (sum_list col) / of_nat (length rows)) (transpose rows)"
    using mean by (simp add: np_mean_axis0_def split: if_splits)
  have jn: "j < n" using j by (simp add: avg tr)
  have col: "map (\<lambda>k. rows ! k ! j) [0..<length rows] = map (\<lambda>c. c ! j) rows"
    by (rule nth_equalityI) simp_all
  have "avg ! j = of_int (sum_list (map (\<lambda>c. c ! j) rows)) / of_nat (length rows)"
    using jn by (simp add: avg tr col)
  also have "of_int (sum_list (map (\<lambda>c. c ! j) rows)) = (\<Sum>c\<leftarrow>rows. (of_int (c ! j) :: rat))"
    by (induction rows) simp_all
  finally show ?thesis by (simp add: spec_elementwise_mean_def)
qed

subsection \<open>What a published report holds\<close>

lemma aggregate_publish:
  assumes run: "aggregate s fr d oid name = (s', evs, r)" and pub: "Publish data \<in> set evs"
  shows "\<exists>avg. length (deque_append (buffer_of s oid) (flatten (corners_of fr d))) = 10
           \<and> oid \<notin> published_objects s
           \<and> np_mean_axis0 (deque_append (buffer_of s oid) (flatten (corners_of fr d))) = Inr avg
           \<and> length avg = 8
           \<and> data = Num (of_int oid) # map Num avg @ [marker_length_x fr d, marker_length_y fr d]"
proof (cases "length (deque_append (buffer_of s oid) (flatten (corners_of fr d))) = 10
             \<and> oid \<notin> published_objects s")
  case False
  show ?thesis using run pub unfolding aggregate_not_ready[OF False] by auto
next
  case True
  then have len: "length (deque_append (buffer_of s oid) (flatten (corners_of fr d))) = 10"
    and new: "oid \<notin> published_objects s" by simp_all
  show ?thesis
  proof (cases "np_mean_axis0 (deque_append (buffer_of s oid) (flatten (corners_of fr d)))")
    case (Inl e)
    show ?thesis using run pub unfolding aggregate_mean_error[OF len new Inl] by auto
  next
    case (Inr avg)
    show ?thesis
    proof (cases "np_reshape42 avg")
      case (Inl e)
      show ?thesis using run pub unfolding aggregate_reshape_error[OF len new Inr Inl] by auto
    next
      case pts: (Inr avg_corners)
      have "data = Num (of_int oid) # map Num (flatten avg_corners)
                     @ [marker_length_x fr d, marker_length_y fr d]"
        using run pub unfolding aggregate_ready[OF len new Inr pts] by auto
      then show ?thesis using len new Inr flatten_reshape42[OF pts] by simp
    qed
  qed
qed

lemma publish_publish:
  assumes run: "publish_object_data labels s fr d = (s', evs, r)"
    and pub: "Publish data \<in> set evs"
  shows "\<exists>oid avg. (oid = 101 \<or> oid = 102)
           \<and> length (deque_append (buffer_of s oid) (flatten (corners_of fr d))) = 10
           \<and> oid \<notin> published_objects s
           \<and> np_mean_axis0 (deque_append (buffer_of s oid) (flatten (corners_of fr d))) = Inr avg
           \<and> length avg = 8
           \<and> data = Num (of_int oid) # map Num avg @ [marker_length_x fr d, marker_length_y fr d]"
proof (cases "labels_lookup labels (label d)")
  case (Inl e)
  then show ?thesis using run pub by (simp add: publish_object_data_def)
next
  case (Inr name)
  consider (backpack) "name = ''backpack''"
    | (person) "name \<noteq> ''backpack''" "name = ''person''"
    | (unknown) "name \<noteq> ''backpack''" "name \<noteq> ''person''" by blast
  then show ?thesis
  proof cases
    case backpack
    then have "aggregate s fr d 101 name = (s', evs, r)"
      using run Inr by (simp add: publish_object_data_def)
    from aggregate_publish[OF this pub] show ?thesis by blast
  next
    case person
    then have "aggregate s fr d 102 name = (s', evs, r)"
      using run Inr by (simp add: publish_object_data_def)
    from aggregate_publish[OF this pub] show ?thesis by blast
  next
    case unknown
    then show ?thesis using run pub Inr by (auto simp add: publish_object_data_def)
  qed
qed

lemma marker_length_x_eq:
  "marker_length_x fr d =
     np_true_divide
       (wrap64 (astype_int (np_multiply (np_clip (xmax d) 0 1) (int (shape1 fr)))
                - astype_int (np_multiply (np_clip (xmin d) 0 1) (int (shape1 fr)))))
       (shape1 fr)"
  by (simp add: marker_length_x_def frameNorm_four)

lemma marker_length_y_eq:
  "marker_length_y fr d =
     np_true_divide
       (wrap64 (astype_int (np_multiply (np_clip (ymax d) 0 1) (int (shape0 fr)))
                - astype_int (np_multiply (np_clip (ymin d) 0 1) (int (shape0 fr)))))
       (shape0 fr)"
  by (simp add: marker_length_y_def frameNorm_four)

subsection \<open>Evaluating the scenarios\<close>

lemma np_multiply_NaN: "np_multiply NaN k = NaN"
  by (simp add: np_multiply_def fmul_def)

lemma astype_int_NaN: "astype_int NaN = - 9223372036854775808"
  by (simp add: astype_int_def int64_min_def)

lemma round64_beyond_53:
  "round64 9007199254740995 = Num 9007199254740996"
  "round64 9007199254740996 = Num 9007199254740996"
  by code_simp+

lemma replicate_10: "replicate 10 x = [x, x, x, x, x, x, x, x, x, x]"
  by (simp add: numeral_eq_Suc)

lemma replicate_11: "replicate 11 x = [x, x, x, x, x, x, x, x, x, x, x]"
  by (simp add: numeral_eq_Suc)

lemmas pixel_eval = frameNorm_four np_clip_def np_multiply_Num np_multiply_NaN astype_int_round64
  astype_int_NaN floor_rat_numeral

lemmas detection_eval = corners_of_def marker_length_x_def marker_length_y_def wrap64_def
  np_true_divide_def scenario_frame_def scenario_detection_def jitter_detection_def
  labels_lookup_def scenario_labels_def pixel_eval

lemmas run_eval = run_detections.simps publish_object_data_def aggregate_def Let_def buffer_of_def
  deque_append_def maxlen_def np_mean_axis0_def np_reshape42_def flatten_def init_state_def
  events_of_def state_of_def outcome_of_def jitter_run_def upt_rec replicate_10 replicate_11

section \<open>The claims about the object detector node\<close>

text \<open>
  C5, as the specification states it, fails. A \<open>nan\<close> coordinate passes through the
  clipping and the conversion to an integer turns it into the least int64, far outside the
  frame. A frame dimension beyond \<open>2^53\<close> is itself rounded when it is converted to
  float64, and the pixel coordinate can exceed it.
\<close>

theorem frameNorm_nan_counterexample:
  "frameNorm scenario_frame [NaN, Num (2 / 5), Num (3 / 5), Num (3 / 5)]
     = [- 9223372036854775808, 166, 249, 249]
   \<and> \<not> 0 \<le> frameNorm scenario_frame [NaN, Num (2 / 5), Num (3 / 5), Num (3 / 5)] ! 0
   \<and> frameNorm \<lparr>shape0 = 1, shape1 = 9007199254740995\<rparr> [Num 1, Num 1, Num 1, Num 1] ! 0
     = 9007199254740996
   \<and> \<not> frameNorm \<lparr>shape0 = 1, shape1 = 9007199254740995\<rparr> [Num 1, Num 1, Num 1, Num 1] ! 0
         \<le> int (shape1 \<lparr>shape0 = 1, shape1 = 9007199254740995\<rparr>)"
proof -
  have nan: "frameNorm scenario_frame [NaN, Num (2 / 5), Num (3 / 5), Num (3 / 5)]
      = [- 9223372036854775808, 166, 249, 249]"
    by (simp add: scenario_frame_def pixel_eval)
  have big: "frameNorm \<lparr>shape0 = 1, shape1 = 9007199254740995\<rparr> [Num 1, Num 1, Num 1, Num 1] ! 0
      = 9007199254740996"
    by (simp add: frameNorm_four np_clip_def np_multiply_def fmul_def round64_beyond_53
        astype_int_def int64_min_def)
  show ?thesis unfolding nan big by simp
qed

text \<open>
  C5, amended. For every bounding box of four float64 values none of which is \<open>nan\<close>,
  inside the unit interval or not, infinities included, and every frame whose dimensions are
  at most \<open>2^53\<close>, \<open>frameNorm\<close> clips each value to the unit interval, multiplies the
  first and third by the frame width and the second and fourth by the frame height in
  float64, and truncates. Every pixel coordinate that results is an integer within the frame:
  the x coordinates lie between 0 and the width, the y coordinates between 0 and the height.
\<close>

theorem frameNorm_within_frame:
  assumes "a \<noteq> NaN" and "b \<noteq> NaN" and "c \<noteq> NaN" and "d \<noteq> NaN"
    and "shape0 fr \<le> 2 ^ 53" and "shape1 fr \<le> 2 ^ 53"
  shows "frameNorm fr [a, b, c, d] =
     [astype_int (np_multiply (np_clip a 0 1) (int (shape1 fr))),
      astype_int (np_multiply (np_clip b 0 1) (int (shape0 fr))),
      astype_int (np_multiply (np_clip c 0 1) (int (shape1 fr))),
      astype_int (np_multiply (np_clip d 0 1) (int (shape0 fr)))]
   \<and> (\<exists>q. np_clip a 0 1 = Num q \<and> 0 \<le> q \<and> q \<le> 1)
   \<and> (\<exists>q. np_clip b 0 1 = Num q \<and> 0 \<le> q \<and> q \<le> 1)
   \<and> (\<exists>q. np_clip c 0 1 = Num q \<and> 0 \<le> q \<and> q \<le> 1)
   \<and> (\<exists>q. np_clip d 0 1 = Num q \<and> 0 \<le> q \<and> q \<le> 1)
   \<and> 0 \<le> frameNorm fr [a, b, c, d] ! 0 \<and> frameNorm fr [a, b, c, d] ! 0 \<le> int (shape1 fr)
   \<and> 0 \<le> frameNorm fr [a, b, c, d] ! 1 \<and> frameNorm fr [a, b, c, d] ! 1 \<le> int (shape0 fr)
   \<and> 0 \<le> frameNorm fr [a, b, c, d] ! 2 \<and> frameNorm fr [a, b, c, d] ! 2 \<le> int (shape1 fr)
   \<and> 0 \<le> frameNorm fr [a, b, c, d] ! 3 \<and> frameNorm fr [a, b, c, d] ! 3 \<le> int (shape0 fr)"
proof -
  note px = pixel_bounds[OF assms(1,6)] pixel_bounds[OF assms(2,5)]
            pixel_bounds[OF assms(3,6)] pixel_bounds[OF assms(4,5)]
  note cl = np_clip_unit[OF assms(1)] np_clip_unit[OF assms(2)]
            np_clip_unit[OF assms(3)] np_clip_unit[OF assms(4)]
  show ?thesis unfolding frameNorm_four using px cl by simp
qed

theorem frameNorm_within_frame_witness:
  "Num (- (1 / 4)) \<noteq> NaN \<and> Num (1 / 3) \<noteq> NaN \<and> PInf \<noteq> NaN \<and> Num (9 / 10) \<noteq> NaN
   \<and> shape0 \<lparr>shape0 = 300, shape1 = 640\<rparr> \<le> 2 ^ 53
   \<and> shape1 \<lparr>shape0 = 300, shape1 = 640\<rparr> \<le> 2 ^ 53
   \<and> frameNorm \<lparr>shape0 = 300, shape1 = 640\<rparr>
         [Num (- (1 / 4)), Num (1 / 3), PInf, Num (9 / 10)] = [0, 100, 640, 270]
   \<and> 0 \<le> frameNorm \<lparr>shape0 = 300, shape1 = 640\<rparr>
         [Num (- (1 / 4)), Num (1 / 3), PInf, Num (9 / 10)] ! 2
   \<and> frameNorm \<lparr>shape0 = 300, shape1 = 640\<rparr>
         [Num (- (1 / 4)), Num (1 / 3), PInf, Num (9 / 10)] ! 2 \<le> 640"
proof -
  have a: "Num (- (1 / 4)) \<noteq> NaN" and b: "Num (1 / 3) \<noteq> NaN" and c: "PInf \<noteq> NaN"
    and d: "Num (9 / 10) \<noteq> NaN" by simp_all
  have h: "shape0 \<lparr>shape0 = 300, shape1 = 640\<rparr> \<le> 2 ^ 53"
    and w: "shape1 \<lparr>shape0 = 300, shape1 = 640\<rparr> \<le> 2 ^ 53" by simp_all
  have v: "frameNorm \<lparr>shape0 = 300, shape1 = 640\<rparr>
      [Num (- (1 / 4)), Num (1 / 3), PInf, Num (9 / 10)] = [0, 100, 640, 270]"
    by code_simp
  from frameNorm_within_frame[OF a b c d h w] a b c d h w v show ?thesis by simp
qed

text \<open>
  C10. Every report that \<open>publish_object_data\<close> sends has exactly 11 entries: the object
  id (101 or 102), then the eight averaged corner coordinates, then the two size ratios. The
  two ratios are those of the detection at hand on its own frame, computed from its clipped
  and scaled box alone; the buffered observations do not enter them.
\<close>

theorem report_payload_layout:
  assumes "publish_object_data labels s fr d = (s', evs, r)"
    and "Publish data \<in> set evs"
  shows "length data = 11
    \<and> (\<exists>oid avg. (oid = 101 \<or> oid = 102)
          \<and> np_mean_axis0 (deque_append (buffer_of s oid) (flatten (corners_of fr d))) = Inr avg
          \<and> length avg = 8
          \<and> data = [Num (of_int oid)] @ map Num avg @ [marker_length_x fr d, marker_length_y fr d])
    \<and> drop 9 data = [marker_length_x fr d, marker_length_y fr d]
    \<and> marker_length_x fr d =
        np_true_divide
          (wrap64 (astype_int (np_multiply (np_clip (xmax d) 0 1) (int (shape1 fr)))
                   - astype_int (np_multiply (np_clip (xmin d) 0 1) (int (shape1 fr)))))
          (shape1 fr)
    \<and> marker_length_y fr d =
        np_true_divide
          (wrap64 (astype_int (np_multiply (np_clip (ymax d) 0 1) (int (shape0 fr)))
                   - astype_int (np_multiply (np_clip (ymin d) 0 1) (int (shape0 fr)))))
          (shape0 fr)"
proof -
  from publish_publish[OF assms] obtain oid avg where
    oid: "oid = 101 \<or> oid = 102"
    and mean: "np_mean_axis0 (deque_append (buffer_of s oid) (flatten (corners_of fr d))) = Inr avg"
    and len: "length avg = 8"
    and data: "data = Num (of_int oid) # map Num avg @ [marker_length_x fr d, marker_length_y fr d]"
    by blast
  have "length data = 11" using data len by simp
  moreover have "drop 9 data = [marker_length_x fr d, marker_length_y fr d]"
    using data len by simp
  moreover have "\<exists>oid avg. (oid = 101 \<or> oid = 102)
          \<and> np_mean_axis0 (deque_append (buffer_of s oid) (flatten (corners_of fr d))) = Inr avg
          \<and> length avg = 8
          \<and> data = [Num (of_int oid)] @ map Num avg @ [marker_length_x fr d, marker_length_y fr d]"
    using oid mean len data by auto
  ultimately show ?thesis using marker_length_x_eq marker_length_y_eq by blast
qed

theorem report_payload_layout_witness:
  "Publish [Num 101, Num (923 / 5), Num 166, Num (573 / 2), Num 166, Num (573 / 2), Num 249,
            Num (923 / 5), Num 249, Num (121 / 416), Num (83 / 416)]
     \<in> set (events_of (publish_object_data scenario_labels
                (state_of (run_detections scenario_labels init_state (jitter_run 9)))
                scenario_frame (jitter_detection 9)))
   \<and> length [Num 101, Num (923 / 5), Num 166, Num (573 / 2), Num 166, Num (573 / 2), Num 249,
              Num (923 / 5), Num 249, Num (121 / 416), Num (83 / 416)] = 11
   \<and> [Num (121 / 416), Num (83 / 416)]
       = [marker_length_x scenario_frame (jitter_detection 9),
          marker_length_y scenario_frame (jitter_detection 9)]"
proof -
  let ?s = "state_of (run_detections scenario_labels init_state (jitter_run 9))"
  let ?res = "publish_object_data scenario_labels ?s scenario_frame (jitter_detection 9)"
  let ?data = "[Num 101, Num (923 / 5), Num 166, Num (573 / 2), Num 166, Num (573 / 2), Num 249,
                Num (923 / 5), Num 249, Num (121 / 416), Num (83 / 416)]"
  have run: "?res = (state_of ?res, events_of ?res, outcome_of ?res)"
    by (simp add: state_of_def events_of_def outcome_of_def)
  have pub: "Publish ?data \<in> set (events_of ?res)"
    by (simp add: run_eval detection_eval)
  from report_payload_layout[OF run pub] show ?thesis using pub by simp
qed

text \<open>
  C2. Whenever \<open>publish_object_data\<close> sends a report for an object id, the buffer of that id
  holds exactly 10 observations at that moment (the one at hand included), and the eight
  corner entries of the report, reshaped into four points, are the elementwise arithmetic
  means of those 10 observations.
\<close>

theorem report_corners_are_window_mean:
  assumes "publish_object_data labels s fr d = (s', evs, r)"
    and "Publish data \<in> set evs"
    and "report_id data = Some (Num (of_int oid))"
  shows "length (deque_append (buffer_of s oid) (flatten (corners_of fr d))) = 10
    \<and> np_reshape42 (take 8 (drop 1 data)) = Inr
        (map (\<lambda>k. (Num (spec_elementwise_mean
                          (deque_append (buffer_of s oid) (flatten (corners_of fr d))) (2 * k)),
                    Num (spec_elementwise_mean
                          (deque_append (buffer_of s oid) (flatten (corners_of fr d))) (2 * k + 1))))
             [0, 1, 2, 3])"
proof -
  from publish_publish[OF assms(1,2)] obtain oid' avg where
    len10: "length (deque_append (buffer_of s oid') (flatten (corners_of fr d))) = 10"
    and mean: "np_mean_axis0 (deque_append (buffer_of s oid') (flatten (corners_of fr d))) = Inr avg"
    and len: "length avg = 8"
    and data: "data = Num (of_int oid') # map Num avg @ [marker_length_x fr d, marker_length_y fr d]"
    by blast
  have "oid' = oid" using assms(3) data by (simp add: report_id_def)
  note len10 = len10[unfolded this] and mean = mean[unfolded this]
  let ?buf = "deque_append (buffer_of s oid) (flatten (corners_of fr d))"
  have ne: "?buf \<noteq> []" using len10 by auto
  have nth: "\<And>j. j < 8 \<Longrightarrow> avg ! j = spec_elementwise_mean ?buf j"
    using np_mean_axis0_nth[OF mean ne] len by simp
  have mid: "take 8 (drop 1 data) = map Num avg" using data len by simp
  obtain a0 a1 a2 a3 a4 a5 a6 a7 where avg: "avg = [a0, a1, a2, a3, a4, a5, a6, a7]"
    using len by (rule list_of_length_8)
  have "np_reshape42 (map Num avg) = Inr
        (map (\<lambda>k. (Num (avg ! (2 * k)), Num (avg ! (2 * k + 1)))) [0, 1, 2, 3])"
    unfolding avg by (simp add: np_reshape42_def)
  also have "map (\<lambda>k. (Num (avg ! (2 * k)), Num (avg ! (2 * k + 1)))) [0, 1, 2, 3]
     = map (\<lambda>k. (Num (spec_elementwise_mean ?buf (2 * k)),
                  Num (spec_elementwise_mean ?buf (2 * k + 1)))) [0, 1, 2, 3::nat]"
    using nth[of 0] nth[of 1] nth[of 2] nth[of 3] nth[of 4] nth[of 5] nth[of 6] nth[of 7]
    by simp
  finally show ?thesis using len10 mid by simp
qed

theorem report_corners_are_window_mean_witness:
  "Publish [Num 101, Num (923 / 5), Num 166, Num (573 / 2), Num 166, Num (573 / 2), Num 249,
            Num (923 / 5), Num 249, Num (121 / 416), Num (83 / 416)]
     \<in> set (events_of (publish_object_data scenario_labels
                (state_of (run_detections scenario_labels init_state (jitter_run 9)))
                scenario_frame (jitter_detection 9)))
   \<and> np_reshape42 [Num (923 / 5), Num 166, Num (573 / 2), Num 166, Num (573 / 2), Num 249,
                    Num (923 / 5), Num (249 :: rat)]
       = Inr (map (\<lambda>k. (Num (spec_elementwise_mean
                   (deque_append (buffer_of (state_of (run_detections scenario_labels init_state
                       (jitter_run 9))) 101) (flatten (corners_of scenario_frame (jitter_detection 9))))
                   (2 * k)),
                 Num (spec_elementwise_mean
                   (deque_append (buffer_of (state_of (run_detections scenario_labels init_state
                       (jitter_run 9))) 101) (flatten (corners_of scenario_frame (jitter_detection 9))))
                   (2 * k + 1))))
              [0, 1, 2, 3])"
proof -
  let ?s = "state_of (run_detections scenario_labels init_state (jitter_run 9))"
  let ?res = "publish_object_data scenario_labels ?s scenario_frame (jitter_detection 9)"
  let ?data = "[Num 101, Num (923 / 5), Num 166, Num (573 / 2), Num 166, Num (573 / 2), Num 249,
                Num (923 / 5), Num 249, Num (121 / 416), Num (83 / 416)]"
  have run: "?res = (state_of ?res, events_of ?res, outcome_of ?res)"
    by (simp add: state_of_def events_of_def outcome_of_def)
  have pub: "Publish ?data \<in> set (events_of ?res)"
    by (simp add: run_eval detection_eval)
  have rid: "report_id ?data = Some (Num (of_int 101))"
    by (simp add: report_id_def)
  from report_corners_are_window_mean[OF run pub rid] show ?thesis using pub by simp
qed

text \<open>
  C1. Whatever detections arrive and however often the window of an object id fills, the
  node sends at most one report for that id: counted from the start of the process, and
  counted from any later state. Once the id is in \<open>published_objects\<close> it stays there, and
  neither one further call nor any further run sends a report for it.
\<close>

theorem report_at_most_once:
  "length (reports_for oid (events_of (run_detections labels init_state ds))) \<le> 1
   \<and> length (reports_for oid (events_of (run_detections labels s ds))) \<le> 1
   \<and> (oid \<in> published_objects s \<longrightarrow>
         reports_for oid (events_of (publish_object_data labels s fr d)) = []
       \<and> oid \<in> published_objects (state_of (publish_object_data labels s fr d))
       \<and> reports_for oid (events_of (run_detections labels s ds)) = [])"
proof -
  have run: "run_detections labels t ds =
      (state_of (run_detections labels t ds), events_of (run_detections labels t ds),
       outcome_of (run_detections labels t ds))" for t
    by (simp add: state_of_def events_of_def outcome_of_def)
  have step: "publish_object_data labels s fr d =
      (state_of (publish_object_data labels s fr d), events_of (publish_object_data labels s fr d),
       outcome_of (publish_object_data labels s fr d))"
    by (simp add: state_of_def events_of_def outcome_of_def)
  have "length (reports_for oid (events_of (run_detections labels init_state ds))) \<le> 1"
    by (rule run_at_most_one[OF run])
  moreover have "length (reports_for oid (events_of (run_detections labels s ds))) \<le> 1"
    by (rule run_at_most_one[OF run])
  moreover have "reports_for oid (events_of (publish_object_data labels s fr d)) = []"
    if "oid \<in> published_objects s"
    using publish_reports_for(2)[OF step that] .
  moreover have "oid \<in> published_objects (state_of (publish_object_data labels s fr d))"
    if "oid \<in> published_objects s"
    using publish_reports_for(1)[OF step] that by blast
  moreover have "reports_for oid (events_of (run_detections labels s ds)) = []"
    if "oid \<in> published_objects s"
    using run_published_silent[OF that run] .
  ultimately show ?thesis by blast
qed

theorem report_at_most_once_witness:
  "101 \<in> published_objects (state_of (run_detections scenario_labels init_state (jitter_run 10)))
   \<and> reports_for 101 (events_of (run_detections scenario_labels
        (state_of (run_detections scenario_labels init_state (jitter_run 10))) (jitter_run 12))) = []
   \<and> length (reports_for 101 (events_of (run_detections scenario_labels init_state (jitter_run 12))))
       \<le> 1"
proof -
  have mem: "101 \<in> published_objects
      (state_of (run_detections scenario_labels init_state (jitter_run 10)))"
    by (simp add: run_eval detection_eval)
  from report_at_most_once[of 101 scenario_labels "jitter_run 12"
      "state_of (run_detections scenario_labels init_state (jitter_run 10))"]
  show ?thesis using mem by blast
qed

text \<open>
  C4, as the specification states it, fails. The label of a detection is a class index, and
  line 105 first looks its name up in the label list of the configuration. An index with no
  name there is not in the table either, but the lookup raises IndexError: nothing is
  logged, and the exception ends the loop, so the detections after it are not handled.
\<close>

theorem unmapped_index_counterexample:
  "publish_object_data scenario_labels init_state scenario_frame (scenario_detection\<lparr>label := 5\<rparr>)
     = (init_state, [], Some IndexError)
   \<and> run_detections scenario_labels init_state
        [(scenario_frame, scenario_detection\<lparr>label := 5\<rparr>), (scenario_frame, scenario_detection)]
     = (init_state, [], Some IndexError)"
  by (simp add: publish_object_data_def labels_lookup_def scenario_labels_def)

text \<open>
  C4, amended. A detection whose class index has a name in the label list of the
  configuration, the name being neither \<open>backpack\<close> nor \<open>person\<close>, is dropped with a
  warning and nothing else: the state is unchanged (no buffer is created or appended to),
  nothing is published or spoken, no exception is raised, and the loop goes on with the next
  detection.
\<close>

theorem unknown_label_dropped:
  assumes "labels_lookup labels (label d) = Inr name"
    and "name \<noteq> ''backpack''" and "name \<noteq> ''person''"
  shows "publish_object_data labels s fr d =
           (s, [Logwarn ''This Object Identifier is unknown''], None)
    \<and> run_detections labels s ((fr, d) # ds) =
           (state_of (run_detections labels s ds),
            Logwarn ''This Object Identifier is unknown'' # events_of (run_detections labels s ds),
            outcome_of (run_detections labels s ds))"
proof -
  have one: "publish_object_data labels s fr d =
      (s, [Logwarn ''This Object Identifier is unknown''], None)"
    using assms by (simp add: publish_object_data_def)
  have rest: "run_detections labels s ds =
      (state_of (run_detections labels s ds), events_of (run_detections labels s ds),
       outcome_of (run_detections labels s ds))"
    by (simp add: state_of_def events_of_def outcome_of_def)
  from run_detections_Cons_ok[OF one rest] one show ?thesis by simp
qed

theorem unknown_label_dropped_witness:
  "labels_lookup scenario_labels (label (scenario_detection\<lparr>label := 2\<rparr>)) = Inr ''drone''
   \<and> publish_object_data scenario_labels init_state scenario_frame (scenario_detection\<lparr>label := 2\<rparr>)
       = (init_state, [Logwarn ''This Object Identifier is unknown''], None)"
proof -
  have look: "labels_lookup scenario_labels (label (scenario_detection\<lparr>label := 2\<rparr>)) = Inr ''drone''"
    by (simp add: labels_lookup_def scenario_labels_def)
  have "''drone'' \<noteq> ''backpack''" and "''drone'' \<noteq> ''person''" by simp_all
  from unknown_label_dropped[OF look this] look show ?thesis by blast
qed

text \<open>
  C3. Ten identical backpack detections with the box (0.4, 0.4, 0.6, 0.6) on a 416 by 416
  frame give exactly one report, for object id 101. Its corners are (166,166), (249,166),
  (249,249), (166,249), each coordinate within one pixel of the (166,166), (250,166),
  (250,250), (166,250) of the specification (249.6 is truncated to 249), and its two size
  ratios are 83/416, within 0.001 of 0.2. An eleventh identical detection sends no report.
\<close>

theorem scenario_one_report:
  "reports (events_of (run_detections scenario_labels init_state
      (replicate 10 (scenario_frame, scenario_detection))))
     = [[Num 101, Num 166, Num 166, Num 249, Num 166, Num 249, Num 249, Num 166, Num 249,
         Num (83 / 416), Num (83 / 416)]]
   \<and> list_all2 (near 1)
        (take 8 (drop 1 (hd (reports (events_of (run_detections scenario_labels init_state
            (replicate 10 (scenario_frame, scenario_detection))))))))
        [166, 166, 250, 166, 250, 250, 166, 250]
   \<and> list_all2 (near (1 / 1000))
        (drop 9 (hd (reports (events_of (run_detections scenario_labels init_state
            (replicate 10 (scenario_frame, scenario_detection)))))))
        [1 / 5, 1 / 5]
   \<and> reports (events_of (publish_object_data scenario_labels
        (state_of (run_detections scenario_labels init_state
           (replicate 10 (scenario_frame, scenario_detection))))
        scenario_frame scenario_detection)) = []
   \<and> reports (events_of (run_detections scenario_labels init_state
      (replicate 11 (scenario_frame, scenario_detection))))
     = [[Num 101, Num 166, Num 166, Num 249, Num 166, Num 249, Num 249, Num 166, Num 249,
         Num (83 / 416), Num (83 / 416)]]"
proof -
  have ten: "reports (events_of (run_detections scenario_labels init_state
      (replicate 10 (scenario_frame, scenario_detection))))
     = [[Num 101, Num 166, Num 166, Num 249, Num 166, Num 249, Num 249, Num 166, Num 249,
         Num (83 / 416), Num (83 / 416)]]"
    by (simp add: run_eval detection_eval)
  have next_one: "reports (events_of (publish_object_data scenario_labels
        (state_of (run_detections scenario_labels init_state
           (replicate 10 (scenario_frame, scenario_detection))))
        scenario_frame scenario_detection)) = []"
    by (simp add: run_eval detection_eval)
  have eleven: "reports (events_of (run_detections scenario_labels init_state
      (replicate 11 (scenario_frame, scenario_detection))))
     = [[Num 101, Num 166, Num 166, Num 249, Num 166, Num 249, Num 249, Num 166, Num 249,
         Num (83 / 416), Num (83 / 416)]]"
    by (simp add: run_eval detection_eval)
  show ?thesis unfolding ten next_one eleven by (simp add: near_def)
qed

section \<open>Properties of the marker node\<close>

subsection \<open>No call of find_aruco returns\<close>

lemma reshape_point_fails: "np_reshape42 [a, b] = Inl ValueError"
  by (simp add: np_reshape42_def)

lemma estimate_pose_fails:
  "estimate_pose env corners = Inl (if corners = [] then IndexError else ValueError)"
  by (cases corners) (simp_all add: estimate_pose_def reshape_point_fails)

lemma send_transform_None:
  "send_transform env None = Inl (if has_tfbr env then UnboundLocalError else AttributeError)"
  by (simp add: send_transform_def)

lemma poses_append: "poses (xs @ ys) = poses xs @ poses ys"
  by (induction xs rule: poses.induct) simp_all

lemma marker_loop_poses:
  "marker_loop s new_ids corners ms = (s', evs, r) \<Longrightarrow> poses evs = [] \<and> Aruco_pub \<notin> set evs"
proof (induction ms arbitrary: s new_ids corners s' evs r)
  case Nil
  then show ?case by simp
next
  case (Cons m ms)
  obtain mc mid where m: "m = (mc, mid)" by (cases m)
  show ?case
  proof (cases "np_reshape42 mc")
    case (Inl e)
    then show ?thesis using Cons.prems m by simp
  next
    case (Inr c1)
    obtain s1 n1 where u: "unique_ids s new_ids mid = (s1, n1)"
      by (cases "unique_ids s new_ids mid")
    obtain s2 e2 r2 where rest: "marker_loop s1 n1 c1 ms = (s2, e2, r2)"
      by (cases "marker_loop s1 n1 c1 ms")
    have "evs = Loginfo_detected mid # e2"
      using Cons.prems m Inr u rest by simp
    then show ?thesis using Cons.IH[OF rest] by simp
  qed
qed

lemma find_aruco_raises:
  "\<exists>e. outcome_of (find_aruco env s ms) = Inl e"
proof (cases "length ms > 0")
  case False
  then show ?thesis
    by (simp add: find_aruco_def outcome_of_def send_transform_None)
next
  case True
  obtain s1 e1 r1 where loop: "marker_loop s [] [] ms = (s1, e1, r1)"
    by (cases "marker_loop s [] [] ms")
  show ?thesis
  proof (cases r1)
    case (Inl e)
    then show ?thesis using True loop by (simp add: find_aruco_def outcome_of_def)
  next
    case (Inr p)
    obtain n c where p: "p = (n, c)" by (cases p)
    obtain s2 e2 where q: "queue_new_ids s1 n = (s2, e2)" by (cases "queue_new_ids s1 n")
    show ?thesis using True loop Inr p q
      by (simp add: find_aruco_def outcome_of_def estimate_pose_fails)
  qed
qed

lemma find_aruco_no_pose:
  "poses (events_of (find_aruco env s ms)) = []"
proof (cases "length ms > 0")
  case False
  then show ?thesis
    by (simp add: find_aruco_def events_of_def send_transform_None)
next
  case True
  obtain s1 e1 r1 where loop: "marker_loop s [] [] ms = (s1, e1, r1)"
    by (cases "marker_loop s [] [] ms")
  have quiet: "poses e1 = []" using marker_loop_poses[OF loop] by simp
  show ?thesis
  proof (cases r1)
    case (Inl e)
    then show ?thesis using True loop quiet by (simp add: find_aruco_def events_of_def)
  next
    case (Inr p)
    obtain n c where p: "p = (n, c)" by (cases p)
    obtain s2 e2 where q: "queue_new_ids s1 n = (s2, e2)" by (cases "queue_new_ids s1 n")
    have "poses e2 = []" using q by (auto simp: queue_new_ids_def split: if_splits)
    then show ?thesis using True loop Inr p q quiet
      by (simp add: find_aruco_def events_of_def estimate_pose_fails poses_append)
  qed
qed

subsection \<open>Identifiers on the speech queue\<close>

lemma unique_ids_cases:
  assumes "unique_ids s n mid = (s1, n1)"
  shows "announced s1 = announced s"
    and "speech_queue s1 = speech_queue s"
    and "(mid \<notin> detected_marker_ids s \<and> n1 = n @ [mid]
            \<and> detected_marker_ids s1 = insert mid (detected_marker_ids s))
         \<or> (mid \<in> detected_marker_ids s \<and> n1 = n \<and> detected_marker_ids s1 = detected_marker_ids s)"
  using assms by (auto simp: unique_ids_def announced_def split: if_splits)

lemma unique_ids_inv:
  assumes d: "distinct (announced s @ n)" and sub: "set (announced s @ n) \<subseteq> detected_marker_ids s"
    and u: "unique_ids s n mid = (s1, n1)"
  shows "distinct (announced s1 @ n1)" and "set (announced s1 @ n1) \<subseteq> detected_marker_ids s1"
    and "speech_queue s1 = speech_queue s" and "detected_marker_ids s \<subseteq> detected_marker_ids s1"
proof -
  note uc = unique_ids_cases[OF u]
  show "speech_queue s1 = speech_queue s" by (rule uc(2))
  from uc(3) show "detected_marker_ids s \<subseteq> detected_marker_ids s1" by auto
  from uc(3) show "distinct (announced s1 @ n1)"
  proof
    assume new: "mid \<notin> detected_marker_ids s \<and> n1 = n @ [mid]
            \<and> detected_marker_ids s1 = insert mid (detected_marker_ids s)"
    then have "mid \<notin> set (announced s @ n)" using sub by blast
    then show ?thesis using d new uc(1) by simp
  next
    assume "mid \<in> detected_marker_ids s \<and> n1 = n \<and> detected_marker_ids s1 = detected_marker_ids s"
    then show ?thesis using d uc(1) by simp
  qed
  from uc(3) show "set (announced s1 @ n1) \<subseteq> detected_marker_ids s1"
    using sub uc(1) by auto
qed

lemma marker_loop_inv:
  assumes "distinct (announced s @ n)" and "set (announced s @ n) \<subseteq> detected_marker_ids s"
    and "marker_loop s n c ms = (s', evs, r)"
  shows "speech_queue s' = speech_queue s \<and> detected_marker_ids s \<subseteq> detected_marker_ids s'
     \<and> set (announced s') \<subseteq> detected_marker_ids s'
     \<and> (\<forall>n' c'. r = Inr (n', c') \<longrightarrow>
            distinct (announced s' @ n') \<and> set (announced s' @ n') \<subseteq> detected_marker_ids s')"
  using assms
proof (induction ms arbitrary: s n c s' evs r)
  case Nil
  then show ?case by auto
next
  case (Cons m ms)
  obtain mc mid where m: "m = (mc, mid)" by (cases m)
  show ?case
  proof (cases "np_reshape42 mc")
    case (Inl e)
    then have "s' = s" "r = Inl e" using Cons.prems(3) m by simp_all
    then show ?thesis using Cons.prems(2) by auto
  next
    case (Inr c1)
    obtain s1 n1 where u: "unique_ids s n mid = (s1, n1)"
      by (cases "unique_ids s n mid")
    obtain s2 e2 r2 where rest: "marker_loop s1 n1 c1 ms = (s2, e2, r2)"
      by (cases "marker_loop s1 n1 c1 ms")
    have res: "s' = s2" "r = r2" using Cons.prems(3) m Inr u rest by simp_all
    note ui = unique_ids_inv[OF Cons.prems(1,2) u]
    from Cons.IH[OF ui(1,2) rest] ui(3,4) res show ?thesis by auto
  qed
qed

lemma queue_new_ids_cases:
  assumes "queue_new_ids s n = (s2, e2)"
  shows "announced s2 = announced s @ n" and "detected_marker_ids s2 = detected_marker_ids s"
    and "poses e2 = []"
  using assms by (auto simp: queue_new_ids_def announced_def split: if_splits)

lemma queue_new_ids_inv:
  assumes "distinct (announced s @ n)" and "set (announced s @ n) \<subseteq> detected_marker_ids s"
    and "queue_new_ids s n = (s2, e2)"
  shows "distinct (announced s2)" and "set (announced s2) \<subseteq> detected_marker_ids s2"
    and "detected_marker_ids s2 = detected_marker_ids s"
  using assms(1,2) queue_new_ids_cases[OF assms(3)] by simp_all

lemma find_aruco_inv:
  assumes d: "distinct (announced s)" and sub: "set (announced s) \<subseteq> detected_marker_ids s"
  shows "distinct (announced (state_of (find_aruco env s ms)))
     \<and> set (announced (state_of (find_aruco env s ms)))
          \<subseteq> detected_marker_ids (state_of (find_aruco env s ms))
     \<and> detected_marker_ids s \<subseteq> detected_marker_ids (state_of (find_aruco env s ms))"
proof (cases "length ms > 0")
  case False
  then show ?thesis using d sub
    by (simp add: find_aruco_def state_of_def send_transform_None)
next
  case True
  obtain s1 e1 r1 where loop: "marker_loop s [] [] ms = (s1, e1, r1)"
    by (cases "marker_loop s [] [] ms")
  have d0: "distinct (announced s @ [])" and sub0: "set (announced s @ []) \<subseteq> detected_marker_ids s"
    using d sub by simp_all
  note li = marker_loop_inv[OF d0 sub0 loop]
  show ?thesis
  proof (cases r1)
    case (Inl e)
    have "state_of (find_aruco env s ms) = s1"
      using True loop Inl by (simp add: find_aruco_def state_of_def)
    moreover have "announced s1 = announced s" using li by (simp add: announced_def)
    ultimately show ?thesis using li d by auto
  next
    case (Inr p)
    obtain n c where p: "p = (n, c)" by (cases p)
    obtain s2 e2 where q: "queue_new_ids s1 n = (s2, e2)" by (cases "queue_new_ids s1 n")
    have st: "state_of (find_aruco env s ms) = s2"
      using True loop Inr p q by (simp add: find_aruco_def state_of_def estimate_pose_fails)
    have inv1: "distinct (announced s1 @ n)" "set (announced s1 @ n) \<subseteq> detected_marker_ids s1"
      using li Inr p by auto
    note qi = queue_new_ids_inv[OF inv1 q]
    show ?thesis unfolding st using qi li by auto
  qed
qed

lemma img_callback_inv:
  assumes d: "distinct (announced s)" and sub: "set (announced s) \<subseteq> detected_marker_ids s"
  shows "distinct (announced (state_of (img_callback env s msg)))
     \<and> set (announced (state_of (img_callback env s msg)))
          \<subseteq> detected_marker_ids (state_of (img_callback env s msg))
     \<and> detected_marker_ids s \<subseteq> detected_marker_ids (state_of (img_callback env s msg))"
proof (cases msg)
  case None
  then show ?thesis using d sub by (simp add: img_callback_def state_of_def)
next
  case (Some ms)
  have "state_of (img_callback env s msg) = state_of (find_aruco env s ms)"
    unfolding Some img_callback_def state_of_def
    by (cases "find_aruco env s ms") (auto split: sum.splits)
  then show ?thesis using find_aruco_inv[OF d sub, of env ms] by simp
qed

lemma img_callbacks_inv:
  assumes "distinct (announced s)" and "set (announced s) \<subseteq> detected_marker_ids s"
  shows "distinct (announced (fst (img_callbacks env s msgs)))
     \<and> detected_marker_ids s \<subseteq> detected_marker_ids (fst (img_callbacks env s msgs))"
  using assms
proof (induction msgs arbitrary: s)
  case Nil
  then show ?case by simp
next
  case (Cons m msgs)
  obtain s1 e1 r1 where step: "img_callback env s m = (s1, e1, r1)"
    by (cases "img_callback env s m")
  have s1: "s1 = state_of (img_callback env s m)" using step by (simp add: state_of_def)
  note ci = img_callback_inv[OF Cons.prems, of env m, folded s1]
  have "fst (img_callbacks env s (m # msgs)) = fst (img_callbacks env s1 msgs)"
    using step by (simp split: prod.splits)
  then show ?case using Cons.IH[of s1] ci by auto
qed

subsection \<open>The callback\<close>

lemma marker_loop_mono:
  "marker_loop s n c ms = (s', evs, r) \<Longrightarrow> detected_marker_ids s \<subseteq> detected_marker_ids s'"
proof (induction ms arbitrary: s n c s' evs r)
  case Nil
  then show ?case by simp
next
  case (Cons m ms)
  obtain mc mid where m: "m = (mc, mid)" by (cases m)
  show ?case
  proof (cases "np_reshape42 mc")
    case (Inl e)
    then show ?thesis using Cons.prems m by simp
  next
    case (Inr c1)
    obtain s1 n1 where u: "unique_ids s n mid = (s1, n1)"
      by (cases "unique_ids s n mid")
    obtain s2 e2 r2 where rest: "marker_loop s1 n1 c1 ms = (s2, e2, r2)"
      by (cases "marker_loop s1 n1 c1 ms")
    have "s' = s2" using Cons.prems m Inr u rest by simp
    moreover have "detected_marker_ids s \<subseteq> detected_marker_ids s1"
      using unique_ids_cases(3)[OF u] by auto
    ultimately show ?thesis using Cons.IH[OF rest] by blast
  qed
qed

lemma find_aruco_mono:
  "detected_marker_ids s \<subseteq> detected_marker_ids (state_of (find_aruco env s ms))"
proof (cases "length ms > 0")
  case False
  then show ?thesis by (simp add: find_aruco_def state_of_def send_transform_None)
next
  case True
  obtain s1 e1 r1 where loop: "marker_loop s [] [] ms = (s1, e1, r1)"
    by (cases "marker_loop s [] [] ms")
  note mono = marker_loop_mono[OF loop]
  show ?thesis
  proof (cases r1)
    case (Inl e)
    then show ?thesis using True loop mono by (simp add: find_aruco_def state_of_def)
  next
    case (Inr p)
    obtain n c where p: "p = (n, c)" by (cases p)
    obtain s2 e2 where q: "queue_new_ids s1 n = (s2, e2)" by (cases "queue_new_ids s1 n")
    have "state_of (find_aruco env s ms) = s2"
      using True loop Inr p q by (simp add: find_aruco_def state_of_def estimate_pose_fails)
    then show ?thesis using mono queue_new_ids_cases(2)[OF q] by simp
  qed
qed

lemma find_aruco_no_pub: "Aruco_pub \<notin> set (events_of (find_aruco env s ms))"
proof (cases "length ms > 0")
  case False
  then show ?thesis by (simp add: find_aruco_def events_of_def send_transform_None)
next
  case True
  obtain s1 e1 r1 where loop: "marker_loop s [] [] ms = (s1, e1, r1)"
    by (cases "marker_loop s [] [] ms")
  have quiet: "Aruco_pub \<notin> set e1" using marker_loop_poses[OF loop] by simp
  show ?thesis
  proof (cases r1)
    case (Inl e)
    then show ?thesis using True loop quiet by (simp add: find_aruco_def events_of_def)
  next
    case (Inr p)
    obtain n c where p: "p = (n, c)" by (cases p)
    obtain s2 e2 where q: "queue_new_ids s1 n = (s2, e2)" by (cases "queue_new_ids s1 n")
    have "Aruco_pub \<notin> set e2" using q by (auto simp: queue_new_ids_def split: if_splits)
    then show ?thesis using True loop Inr p q quiet
      by (simp add: find_aruco_def events_of_def estimate_pose_fails)
  qed
qed

lemma img_callback_find_aruco:
  assumes "outcome_of (find_aruco env s ms) = Inl e"
  shows "img_callback env s (Some ms) =
           (state_of (find_aruco env s ms), events_of (find_aruco env s ms), Inl e)"
  using assms unfolding img_callback_def state_of_def events_of_def outcome_of_def
  by (cases "find_aruco env s ms") simp

lemma img_callback_raises:
  "(\<exists>e. outcome_of (img_callback env s msg) = Inl e)
   \<and> Aruco_pub \<notin> set (events_of (img_callback env s msg))
   \<and> poses (events_of (img_callback env s msg)) = []"
proof (cases msg)
  case None
  then show ?thesis by (simp add: img_callback_def outcome_of_def events_of_def)
next
  case (Some ms)
  obtain e where e: "outcome_of (find_aruco env s ms) = Inl e"
    using find_aruco_raises by blast
  show ?thesis unfolding Some img_callback_find_aruco[OF e]
    using find_aruco_no_pub[of env s ms] find_aruco_no_pose[of env s ms]
    by (simp add: outcome_of_def events_of_def)
qed

lemma img_callback_mono:
  "detected_marker_ids s \<subseteq> detected_marker_ids (state_of (img_callback env s msg))"
proof (cases msg)
  case None
  then show ?thesis by (simp add: img_callback_def state_of_def)
next
  case (Some ms)
  obtain e where e: "outcome_of (find_aruco env s ms) = Inl e"
    using find_aruco_raises by blast
  show ?thesis unfolding Some img_callback_find_aruco[OF e]
    using find_aruco_mono[of s env ms] by (simp add: state_of_def)
qed

lemma img_callbacks_quiet:
  "poses (snd (img_callbacks env s msgs)) = [] \<and> Aruco_pub \<notin> set (snd (img_callbacks env s msgs))"
proof (induction msgs arbitrary: s)
  case Nil
  then show ?case by simp
next
  case (Cons m msgs)
  obtain s1 e1 r1 where step: "img_callback env s m = (s1, e1, r1)"
    by (cases "img_callback env s m")
  have e1: "e1 = events_of (img_callback env s m)" using step by (simp add: events_of_def)
  have quiet: "poses e1 = []" "Aruco_pub \<notin> set e1"
    using img_callback_raises[of env s m] unfolding e1 by simp_all
  have "snd (img_callbacks env s (m # msgs)) = e1 @ snd (img_callbacks env s1 msgs)"
    using step by (simp split: prod.splits)
  then show ?case using Cons.IH[of s1] quiet by (simp add: poses_append)
qed

lemma single_marker_outcome:
  assumes "np_reshape42 mc = Inr c"
  shows "outcome_of (find_aruco env s [(mc, mid)]) = Inl ValueError"
proof -
  obtain s1 n1 where u: "unique_ids s [] mid = (s1, n1)" by (cases "unique_ids s [] mid")
  obtain s2 e2 where q: "queue_new_ids s1 n1 = (s2, e2)" by (cases "queue_new_ids s1 n1")
  have "c \<noteq> []" using assms by (auto simp: np_reshape42_def split: if_splits)
  then show ?thesis using assms u q
    by (simp add: find_aruco_def outcome_of_def estimate_pose_fails)
qed

lemma marker_loop_records:
  assumes "marker_loop s n c ms = (s', evs, r)"
    and "list_all (\<lambda>m. length (fst m) = 8) ms"
  shows "\<exists>new c'. r = Inr (n @ new, c')
           \<and> set new = snd ` set ms - detected_marker_ids s \<and> distinct new
           \<and> detected_marker_ids s' = detected_marker_ids s \<union> snd ` set ms
           \<and> speech_queue s' = speech_queue s"
  using assms
proof (induction ms arbitrary: s n c s' evs r)
  case Nil
  then show ?case by auto
next
  case (Cons m ms)
  obtain mc mid where m: "m = (mc, mid)" by (cases m)
  have len: "length mc = 8" and rest_ok: "list_all (\<lambda>m. length (fst m) = 8) ms"
    using Cons.prems(2) m by simp_all
  obtain c1 where c1: "np_reshape42 mc = Inr c1" using len by (simp add: np_reshape42_def)
  obtain s1 n1 where u: "unique_ids s n mid = (s1, n1)" by (cases "unique_ids s n mid")
  obtain s2 e2 r2 where rest: "marker_loop s1 n1 c1 ms = (s2, e2, r2)"
    by (cases "marker_loop s1 n1 c1 ms")
  have res: "s' = s2" "r = r2" using Cons.prems(1) m c1 u rest by simp_all
  from Cons.IH[OF rest rest_ok] obtain new' c' where ih:
    "r2 = Inr (n1 @ new', c')" "set new' = snd ` set ms - detected_marker_ids s1"
    "distinct new'" "detected_marker_ids s2 = detected_marker_ids s1 \<union> snd ` set ms"
    "speech_queue s2 = speech_queue s1"
    by blast
  note uc = unique_ids_cases[OF u]
  from uc(3) show ?case
  proof
    assume first: "mid \<notin> detected_marker_ids s \<and> n1 = n @ [mid]
        \<and> detected_marker_ids s1 = insert mid (detected_marker_ids s)"
    have "r = Inr (n @ (mid # new'), c')" using ih(1) first res by simp
    moreover have "set (mid # new') = snd ` set (m # ms) - detected_marker_ids s"
      using ih(2) first m by auto
    moreover have "distinct (mid # new')" using ih(2,3) first by auto
    moreover have "detected_marker_ids s' = detected_marker_ids s \<union> snd ` set (m # ms)"
      using ih(4) first res m by auto
    moreover have "speech_queue s' = speech_queue s" using ih(5) uc(2) res by simp
    ultimately show ?thesis by blast
  next
    assume seen: "mid \<in> detected_marker_ids s \<and> n1 = n
        \<and> detected_marker_ids s1 = detected_marker_ids s"
    have "r = Inr (n @ new', c')" using ih(1) seen res by simp
    moreover have "set new' = snd ` set (m # ms) - detected_marker_ids s"
      using ih(2) seen m by auto
    moreover have "detected_marker_ids s' = detected_marker_ids s \<union> snd ` set (m # ms)"
      using ih(4) seen res m by auto
    moreover have "speech_queue s' = speech_queue s" using ih(5) uc(2) res by simp
    ultimately show ?thesis using ih(3) by blast
  qed
qed

lemma find_aruco_records:
  assumes ok: "list_all (\<lambda>m. length (fst m) = 8) ms"
  shows "\<exists>new. set new = snd ` set ms - detected_marker_ids s \<and> distinct new
           \<and> detected_marker_ids (state_of (find_aruco env s ms))
                = detected_marker_ids s \<union> snd ` set ms
           \<and> speech_queue (state_of (find_aruco env s ms))
                = speech_queue s @ (if new = [] then [] else [new])"
proof (cases "length ms > 0")
  case False
  then have "state_of (find_aruco env s ms) = s"
    by (simp add: find_aruco_def state_of_def send_transform_None)
  then show ?thesis using False by simp
next
  case True
  obtain s1 e1 r1 where loop: "marker_loop s [] [] ms = (s1, e1, r1)"
    by (cases "marker_loop s [] [] ms")
  from marker_loop_records[OF loop ok] obtain new c' where rec:
    "r1 = Inr (new, c')" "set new = snd ` set ms - detected_marker_ids s" "distinct new"
    "detected_marker_ids s1 = detected_marker_ids s \<union> snd ` set ms"
    "speech_queue s1 = speech_queue s"
    by auto
  obtain s2 e2 where q: "queue_new_ids s1 new = (s2, e2)" by (cases "queue_new_ids s1 new")
  have st: "state_of (find_aruco env s ms) = s2"
    using True loop rec(1) q by (simp add: find_aruco_def state_of_def estimate_pose_fails)
  have "detected_marker_ids s2 = detected_marker_ids s1"
    and "speech_queue s2 = speech_queue s1 @ (if new = [] then [] else [new])"
    using q by (auto simp: queue_new_ids_def split: if_splits)
  then show ?thesis unfolding st using rec by auto
qed

section \<open>The claims about the marker node\<close>

text \<open>
  C6 asks for one pose per visible marker per frame. Evaluated on a frame with one square
  marker, \<open>find_aruco\<close> raises ValueError at line 115 (it reshapes the single point
  \<open>corners[0]\<close> to four points) and sends no pose, whatever the attributes that the function
  looks up hold; two frames that show the same marker at different places send no pose
  either, and no sequence of frames ever does.
\<close>

theorem no_marker_pose_is_sent:
  "outcome_of (find_aruco env s [square_marker]) = Inl ValueError
   \<and> poses (events_of (find_aruco env s [square_marker])) = []
   \<and> poses (snd (img_callbacks env aruco_init [Some [square_marker], Some [moved_marker]])) = []
   \<and> poses (snd (img_callbacks env s msgs)) = []"
proof -
  have "np_reshape42 (fst square_marker) =
      Inr [(100, 100), (200, 100), (200, 200), (100, 200)]"
    by (simp add: square_marker_def np_reshape42_def)
  from single_marker_outcome[OF this, of env s "snd square_marker"]
  have "outcome_of (find_aruco env s [square_marker]) = Inl ValueError" by simp
  then show ?thesis
    using find_aruco_no_pose[of env s "[square_marker]"] img_callbacks_quiet by blast
qed

text \<open>
  C8. The check of lines 95-97 adds an identifier that is not yet in
  \<open>detected_marker_ids\<close> to the set and to the batch, and does nothing for one that is
  already there; after the check the identifier is in the set. The set only grows, over one
  check and over one frame, and no identifier is put on the speech queue twice, however many
  frames the process handles. \<open>find_aruco\<close> runs the check for every marker of a frame
  whose corner arrays have the eight entries that the detector gives them: afterwards all
  identifiers of the frame are in the set, and the queue has grown by one batch that holds,
  once each, exactly the identifiers of the frame that were not in the set before, or by
  nothing when there is none.
\<close>

theorem first_sighting_once:
  "(marker_ID \<notin> detected_marker_ids s \<longrightarrow>
      unique_ids s new_ids marker_ID =
        (s\<lparr>detected_marker_ids := insert marker_ID (detected_marker_ids s)\<rparr>, new_ids @ [marker_ID]))
   \<and> (marker_ID \<in> detected_marker_ids s \<longrightarrow> unique_ids s new_ids marker_ID = (s, new_ids))
   \<and> marker_ID \<in> detected_marker_ids (fst (unique_ids s new_ids marker_ID))
   \<and> detected_marker_ids s \<subseteq> detected_marker_ids (fst (unique_ids s new_ids marker_ID))
   \<and> detected_marker_ids s \<subseteq> detected_marker_ids (state_of (img_callback env s msg))
   \<and> distinct (announced (fst (img_callbacks env aruco_init msgs)))
   \<and> (list_all (\<lambda>m. length (fst m) = 8) ms \<longrightarrow>
        (\<exists>new. set new = snd ` set ms - detected_marker_ids s \<and> distinct new
           \<and> detected_marker_ids (state_of (find_aruco env s ms))
                = detected_marker_ids s \<union> snd ` set ms
           \<and> speech_queue (state_of (find_aruco env s ms))
                = speech_queue s @ (if new = [] then [] else [new])))"
proof -
  have "distinct (announced aruco_init)"
    and "set (announced aruco_init) \<subseteq> detected_marker_ids aruco_init"
    by (simp_all add: announced_def aruco_init_def)
  from img_callbacks_inv[OF this]
  have "distinct (announced (fst (img_callbacks env aruco_init msgs)))" by blast
  moreover have "marker_ID \<in> detected_marker_ids (fst (unique_ids s new_ids marker_ID))"
    and "detected_marker_ids s \<subseteq> detected_marker_ids (fst (unique_ids s new_ids marker_ID))"
    by (auto simp: unique_ids_def)
  moreover have "\<exists>new. set new = snd ` set ms - detected_marker_ids s \<and> distinct new
           \<and> detected_marker_ids (state_of (find_aruco env s ms))
                = detected_marker_ids s \<union> snd ` set ms
           \<and> speech_queue (state_of (find_aruco env s ms))
                = speech_queue s @ (if new = [] then [] else [new])"
    if "list_all (\<lambda>m. length (fst m) = 8) ms"
    using find_aruco_records[OF that] .
  ultimately show ?thesis using img_callback_mono[of s env msg]
    by (simp add: unique_ids_def)
qed

theorem first_sighting_once_witness:
  "7 \<notin> detected_marker_ids aruco_init
   \<and> unique_ids aruco_init [] 7 = (aruco_init\<lparr>detected_marker_ids := {7}\<rparr>, [7])
   \<and> 7 \<in> detected_marker_ids (aruco_init\<lparr>detected_marker_ids := {7}\<rparr>)
   \<and> unique_ids (aruco_init\<lparr>detected_marker_ids := {7}\<rparr>) [] 7
        = (aruco_init\<lparr>detected_marker_ids := {7}\<rparr>, [])
   \<and> distinct (announced (fst (img_callbacks favourable_env aruco_init
        [Some [square_marker, other_marker], Some [moved_marker]])))
   \<and> list_all (\<lambda>m. length (fst m) = 8) [square_marker, moved_marker, other_marker]
   \<and> detected_marker_ids (state_of (find_aruco favourable_env aruco_init
        [square_marker, moved_marker, other_marker])) = {7, 9}
   \<and> speech_queue (state_of (find_aruco favourable_env aruco_init
        [square_marker, moved_marker, other_marker])) = [[7, 9]]
   \<and> speech_queue (state_of (find_aruco favourable_env
        (state_of (find_aruco favourable_env aruco_init [square_marker, moved_marker, other_marker]))
        [moved_marker])) = [[7, 9]]"
proof -
  have a: "7 \<notin> detected_marker_ids aruco_init" by (simp add: aruco_init_def)
  have b: "7 \<in> detected_marker_ids (aruco_init\<lparr>detected_marker_ids := {7}\<rparr>)" by simp
  have ok: "list_all (\<lambda>m. length (fst m) = 8) [square_marker, moved_marker, other_marker]"
    by (simp add: square_marker_def moved_marker_def other_marker_def)
  have seen: "detected_marker_ids (state_of (find_aruco favourable_env aruco_init
        [square_marker, moved_marker, other_marker])) = {7, 9}"
    by code_simp
  have queue: "speech_queue (state_of (find_aruco favourable_env aruco_init
        [square_marker, moved_marker, other_marker])) = [[7, 9]]"
    by code_simp
  have again: "speech_queue (state_of (find_aruco favourable_env
        (state_of (find_aruco favourable_env aruco_init [square_marker, moved_marker, other_marker]))
        [moved_marker])) = [[7, 9]]"
    by code_simp
  from first_sighting_once[of 7 aruco_init "[]" favourable_env None
      "[Some [square_marker, other_marker], Some [moved_marker]]"
      "[square_marker, moved_marker, other_marker]"]
    first_sighting_once[of 7 "aruco_init\<lparr>detected_marker_ids := {7}\<rparr>" "[]" favourable_env None "[]" "[]"]
  show ?thesis using a b ok seen queue again by (simp add: aruco_init_def)
qed

end
